(* ===== verification/Net_Prelude.thy ===== *)
theory Net_Prelude
  imports Main "HOL-Library.Word"
begin

text \<open>
  Shared vocabulary of the development: the machine types of the C++ sources, the ways an
  operation can fail to return (a failed \<open>assert\<close>, a C++ exception, undefined behaviour), the
  result type that carries them, and the parts of the C and C++ standard libraries the sources
  call: \<open>std::vector\<close>, \<open>std::copy\<close>, \<open>std::search\<close>, \<open>memchr\<close> and the printing of integers.

  The build configures no \<open>CMAKE_BUILD_TYPE\<close>, so \<open>NDEBUG\<close> is not defined and every \<open>assert\<close>
  of the sources is a check that aborts the process; the model keeps all of them.
\<close>

section \<open>Machine types and failures\<close>

type_synonym byte = "8 word"
type_synonym size_t = "64 word"

datatype error =
    AssertionFailed    \<comment> \<open>\<open>assert\<close> prints and aborts\<close>
  | LengthError        \<comment> \<open>\<open>std::length_error\<close>: a vector or string beyond \<open>max_size()\<close>\<close>
  | LogicError         \<comment> \<open>\<open>std::logic_error\<close>: a string built from a null pointer\<close>
  | BadFunctionCall    \<comment> \<open>calling an empty \<open>boost::function\<close>\<close>
  | SystemError        \<comment> \<open>\<open>boost::system::system_error\<close>, thrown by a socket operation\<close>
  | NullDereference    \<comment> \<open>undefined behaviour: a member call through a null pointer\<close>
  | OutOfBounds        \<comment> \<open>undefined behaviour: an access outside an allocation\<close>
  | InvalidIterator    \<comment> \<open>undefined behaviour: use of an iterator whose element is gone\<close>
  | UseAfterFree       \<comment> \<open>undefined behaviour: a member call on an object that was destroyed\<close>
  | SignedOverflow     \<comment> \<open>undefined behaviour: overflow of a signed integer\<close>

type_synonym 'a result = "error + 'a"

definition bindR :: "'a result \<Rightarrow> ('a \<Rightarrow> 'b result) \<Rightarrow> 'b result" where
  "bindR m f = (case m of Inl e \<Rightarrow> Inl e | Inr x \<Rightarrow> f x)"

definition assertR :: "bool \<Rightarrow> 'a result \<Rightarrow> 'a result" where
  "assertR b k = (if b then k else Inl AssertionFailed)"

text \<open>\<open>++i\<close> on a C \<open>int\<close>: incrementing \<open>INT_MAX\<close> is undefined.\<close>

definition int_max :: int where
  "int_max = 2147483647"

definition incr_int :: "int \<Rightarrow> int result" where
  "incr_int i = (if i < int_max then Inr (i + 1) else Inl SignedOverflow)"

section \<open>Standard library\<close>

text \<open>The largest size of a \<open>std::vector<char>\<close> on the 64-bit target (\<open>PTRDIFF_MAX\<close>).\<close>

definition max_size :: nat where
  "max_size = 9223372036854775807"

definition vec_new :: "size_t \<Rightarrow> byte list result" where
  "vec_new n = (if max_size < unat n then Inl LengthError else Inr (replicate (unat n) 0))"

definition vec_resize :: "size_t \<Rightarrow> byte list \<Rightarrow> byte list result" where
  "vec_resize n xs =
     (if max_size < unat n then Inl LengthError
      else Inr (take (unat n) xs @ replicate (unat n - length xs) 0))"

text \<open>\<open>std::copy\<close> from memory outside the vector to the offset \<open>off\<close> of the vector.\<close>

definition std_copy :: "byte list \<Rightarrow> nat \<Rightarrow> byte list \<Rightarrow> byte list result" where
  "std_copy data off xs =
     (if length xs < off + length data then Inl OutOfBounds
      else Inr (take off xs @ data @ drop (off + length data) xs))"

text \<open>\<open>std::copy\<close> inside one vector, \<open>n\<close> elements from offset \<open>s\<close> to offset \<open>d\<close>, front to back.\<close>

fun copy_loop :: "nat \<Rightarrow> nat \<Rightarrow> nat \<Rightarrow> byte list \<Rightarrow> byte list" where
  "copy_loop 0 s d xs = xs"
| "copy_loop (Suc n) s d xs = copy_loop n (Suc s) (Suc d) (xs[d := xs ! s])"

definition std_copy_within :: "nat \<Rightarrow> nat \<Rightarrow> nat \<Rightarrow> byte list \<Rightarrow> byte list result" where
  "std_copy_within s e d xs =
     (if length xs < e \<or> e < s \<or> length xs < d + (e - s) then Inl OutOfBounds
      else Inr (copy_loop (e - s) s d xs))"

text \<open>
  \<open>std::search\<close>: the position of the first occurrence of the pattern, the end of the range when
  there is none.
\<close>

fun std_search :: "'a list \<Rightarrow> 'a list \<Rightarrow> nat" where
  "std_search pat [] = 0"
| "std_search pat (x # xs) =
     (if take (length pat) (x # xs) = pat then 0 else Suc (std_search pat xs))"

fun memchr :: "'a \<Rightarrow> 'a list \<Rightarrow> nat option" where
  "memchr c [] = None"
| "memchr c (x # xs) = (if x = c then Some 0 else map_option Suc (memchr c xs))"

text \<open>Decimal output of an integer, as \<open>operator<<\<close> and the \<open>%d\<close> of \<open>printf\<close> print it.\<close>

definition digit_char :: "nat \<Rightarrow> char" where
  "digit_char d = char_of (48 + d)"

fun show_nat :: "nat \<Rightarrow> string" where
  "show_nat n = (if n < 10 then [digit_char n] else show_nat (n div 10) @ [digit_char (n mod 10)])"

declare show_nat.simps [simp del]

definition show_int :: "int \<Rightarrow> string" where
  "show_int i = (if i < 0 then CHR ''-'' # show_nat (nat (- i)) else show_nat (nat i))"

text \<open>\<open>snprintf(buf, n, ...)\<close> keeps the first \<open>n - 1\<close> characters of what it prints.\<close>

definition snprintf :: "nat \<Rightarrow> string \<Rightarrow> string" where
  "snprintf n s = take (n - 1) s"

section \<open>Reachable states\<close>

inductive reach :: "('s \<Rightarrow> bool) \<Rightarrow> ('s \<Rightarrow> 's \<Rightarrow> bool) \<Rightarrow> 's \<Rightarrow> bool" for init step where
  reach_init: "init s \<Longrightarrow> reach init step s"
| reach_step: "reach init step s \<Longrightarrow> step s t \<Longrightarrow> reach init step t"

text \<open>
  The contract of a state machine with an invariant; each state machine of the development
  interprets it, and the invariant then holds in every reachable state.
\<close>

locale inductive_invariant =
  fixes init :: "'s \<Rightarrow> bool"
    and step :: "'s \<Rightarrow> 's \<Rightarrow> bool"
    and inv :: "'s \<Rightarrow> bool"
  assumes inv_init: "init s \<Longrightarrow> inv s"
    and inv_step: "inv s \<Longrightarrow> step s t \<Longrightarrow> inv t"
begin

lemma reachable_inv: "reach init step s \<Longrightarrow> inv s"
  by (induction rule: reach.induct) (auto intro: inv_init inv_step)

end

section \<open>Lemmas\<close>

named_theorems result_simps \<open>inversion of the result combinators\<close>

subsection \<open>Results\<close>

lemma bindR_simps [simp]: "bindR (Inl e) f = Inl e" "bindR (Inr x) f = f x"
  by (simp_all add: bindR_def)

lemma bindR_eq_Inr [result_simps]:
  "bindR m f = Inr y \<longleftrightarrow> (\<exists>x. m = Inr x \<and> f x = Inr y)"
  by (cases m) auto

lemma bindR_eq_Inl [result_simps]:
  "bindR m f = Inl e \<longleftrightarrow> m = Inl e \<or> (\<exists>x. m = Inr x \<and> f x = Inl e)"
  by (cases m) auto

lemma bindR_assoc: "bindR (bindR m f) g = bindR m (\<lambda>x. bindR (f x) g)"
  by (cases m) auto

lemma assertR_simps [simp]:
  "assertR True k = k"
  "assertR False k = Inl AssertionFailed"
  by (simp_all add: assertR_def)

lemma assertR_eq_Inr [result_simps]: "assertR b k = Inr y \<longleftrightarrow> b \<and> k = Inr y"
  by (simp add: assertR_def)

lemma assertR_eq_Inl [result_simps]:
  "assertR b k = Inl e \<longleftrightarrow> (if b then k = Inl e else e = AssertionFailed)"
  by (auto simp: assertR_def)

lemma incr_int_eq_Inr [result_simps]: "incr_int i = Inr j \<longleftrightarrow> i < int_max \<and> j = i + 1"
  by (auto simp: incr_int_def)

subsection \<open>Lists\<close>

lemma length_copy_loop [simp]: "length (copy_loop n s d xs) = length xs"
  by (induction n s d xs rule: copy_loop.induct) simp_all

text \<open>
  A front-to-back copy towards lower addresses moves the block unchanged, even when source and
  destination overlap.
\<close>

lemma copy_loop_nth:
  assumes "d \<le> s" and "s + n \<le> length xs" and "i < length xs"
  shows "copy_loop n s d xs ! i = (if d \<le> i \<and> i < d + n then xs ! (s + (i - d)) else xs ! i)"
  using assms
proof (induction n s d xs rule: copy_loop.induct)
  case (1 s d xs)
  then show ?case by auto
next
  case (2 n s d xs)
  then show ?case
    by (auto simp: nth_list_update Suc_diff_Suc)
qed

lemma copy_loop_eq:
  assumes "d \<le> s" and "s + n \<le> length xs"
  shows "copy_loop n s d xs = take d xs @ take n (drop s xs) @ drop (d + n) xs"
proof (rule nth_equalityI)
  show "length (copy_loop n s d xs) = length (take d xs @ take n (drop s xs) @ drop (d + n) xs)"
    using assms by simp
next
  fix i
  assume "i < length (copy_loop n s d xs)"
  with assms show "copy_loop n s d xs ! i
      = (take d xs @ take n (drop s xs) @ drop (d + n) xs) ! i"
    by (auto simp: copy_loop_nth nth_append)
qed

lemma take_drop_extend:
  "r \<le> w \<Longrightarrow> take (w + n - r) (drop r xs) = take (w - r) (drop r xs) @ take n (drop w xs)"
  using take_add [of "w - r" n "drop r xs"] by simp

lemma std_search_le: "std_search pat xs \<le> length xs"
  by (induction pat xs rule: std_search.induct) auto

lemma std_search_found:
  "std_search pat xs < length xs \<Longrightarrow> take (length pat) (drop (std_search pat xs) xs) = pat"
  by (induction pat xs rule: std_search.induct) auto

lemma std_search_first:
  "i < std_search pat xs \<Longrightarrow> take (length pat) (drop i xs) \<noteq> pat"
proof (induction pat xs arbitrary: i rule: std_search.induct)
  case (1 pat)
  then show ?case by simp
next
  case (2 pat x xs)
  then show ?case by (cases i) (auto split: if_splits)
qed

lemma memchr_Some:
  "memchr c xs = Some i \<longleftrightarrow> i < length xs \<and> xs ! i = c \<and> c \<notin> set (take i xs)"
proof (induction xs arbitrary: i)
  case Nil
  then show ?case by simp
next
  case (Cons x xs)
  then show ?case by (cases i) auto
qed

lemma memchr_None: "memchr c xs = None \<longleftrightarrow> c \<notin> set xs"
  by (induction xs) auto

subsection \<open>Decimal printing\<close>

lemma digit_char_inj: "a < 10 \<Longrightarrow> b < 10 \<Longrightarrow> digit_char a = digit_char b \<Longrightarrow> a = b"
proof -
  assume a: "a < 10" and b: "b < 10" and "digit_char a = digit_char b"
  then have "of_char (digit_char a) = (of_char (digit_char b) :: nat)" by simp
  with a b show "a = b" by (simp add: digit_char_def of_char_of)
qed

lemma show_nat_nonempty [simp]: "show_nat n \<noteq> []" "[] \<noteq> show_nat n"
  by (subst show_nat.simps, simp)+

lemma show_nat_inj: "show_nat m = show_nat n \<Longrightarrow> m = n"
proof (induction m arbitrary: n rule: show_nat.induct)
  case (1 m)
  show ?case
  proof (cases "m < 10")
    case True
    with "1.prems" show ?thesis
      by (cases "n < 10") (auto simp: show_nat.simps [of m] show_nat.simps [of n] dest: digit_char_inj)
  next
    case False
    with "1.prems" have n: "\<not> n < 10"
      by (auto simp: show_nat.simps [of m] show_nat.simps [of n])
    from "1.prems" False n
    have "show_nat (m div 10) = show_nat (n div 10)" "digit_char (m mod 10) = digit_char (n mod 10)"
      by (auto simp: show_nat.simps [of m] show_nat.simps [of n])
    with False have "m div 10 = n div 10" "m mod 10 = n mod 10"
      by (auto intro: "1.IH" digit_char_inj)
    then show ?thesis by (metis div_mult_mod_eq)
  qed
qed

lemma show_int_inj: "0 \<le> i \<Longrightarrow> 0 \<le> j \<Longrightarrow> show_int i = show_int j \<Longrightarrow> i = j"
  by (auto simp: show_int_def dest!: show_nat_inj)

lemma show_nat_length: "n < 10 ^ k \<Longrightarrow> 0 < k \<Longrightarrow> length (show_nat n) \<le> k"
proof (induction k arbitrary: n)
  case (Suc k)
  show ?case
  proof (cases "n < 10")
    case False
    with Suc.prems have "n div 10 < 10 ^ k" "0 < k" by (auto intro: less_mult_imp_div_less gr0I)
    with Suc.IH False show ?thesis by (simp add: show_nat.simps [of n])
  qed (simp add: show_nat.simps [of n])
qed simp

lemma show_int_length: "0 \<le> i \<Longrightarrow> i < 10 ^ k \<Longrightarrow> 0 < k \<Longrightarrow> length (show_int i) \<le> k"
  using show_nat_length [of "nat i" k] by (simp add: show_int_def nat_less_iff)

subsection \<open>Words\<close>

lemma unat_size_t_lt [simp]: "unat (x :: size_t) < 18446744073709551616"
  using unsigned_less [of x, where 'a = nat] by simp

lemma unat_of_nat_size_t: "n \<le> max_size \<Longrightarrow> unat (of_nat n :: size_t) = n"
  by (simp add: unat_of_nat max_size_def)

end
