(* ===== verification/StringPiece.thy ===== *)
theory StringPiece
  imports Net_Prelude "HOL-Library.List_Lexorder" "HOL-Library.Sublist"
begin

text \<open>
  The string view of \<open>src/src/base/StringPiece.h\<close>: a pointer and a C \<open>int\<close> length over memory
  the view does not own. Memory is a map from blocks to their bytes, a pointer is null or a block
  and an offset, and every library call that reads through a pointer (\<open>strlen\<close>, \<open>memcmp\<close>, the
  constructor of \<open>std::string\<close>) is a read of that memory which fails outside the block. The
  standard fixes only the sign of the result of \<open>memcmp\<close>; the model returns -1, 0 or 1.

  The properties relate a view to the byte string it denotes: the comparison operators are the
  lexicographic order on unsigned bytes, \<open>starts_with\<close> is the prefix relation, \<open>remove_prefix\<close> and
  \<open>remove_suffix\<close> cut the string, and a view of a C string denotes the bytes before the NUL.
\<close>

section \<open>Memory\<close>

datatype ptr = Null | Ptr nat int

type_synonym memory = "nat \<rightharpoonup> byte list"

text \<open>Conversion of an \<open>int\<close> to \<open>size_t\<close> and of a \<open>size_t\<close> to \<open>int\<close>.\<close>

definition to_size :: "int \<Rightarrow> nat" where
  "to_size n = nat (n mod 18446744073709551616)"

definition cast_int :: "nat \<Rightarrow> int" where
  "cast_int n = signed_take_bit 31 (int n)"

definition sub_int :: "int \<Rightarrow> int \<Rightarrow> int result" where
  "sub_int a b = (if - int_max - 1 \<le> a - b \<and> a - b \<le> int_max then Inr (a - b) else Inl SignedOverflow)"

definition load :: "memory \<Rightarrow> ptr \<Rightarrow> nat \<Rightarrow> byte list result" where
  "load m p n =
     (if n = 0 then Inr [] else
      case p of Null \<Rightarrow> Inl NullDereference
      | Ptr a i \<Rightarrow> (case m a of None \<Rightarrow> Inl OutOfBounds
         | Some bs \<Rightarrow> if 0 \<le> i \<and> nat i + n \<le> length bs then Inr (take n (drop (nat i) bs))
                     else Inl OutOfBounds))"

text \<open>Pointer arithmetic is defined inside the block and one past its end.\<close>

definition ptr_add :: "memory \<Rightarrow> ptr \<Rightarrow> int \<Rightarrow> ptr result" where
  "ptr_add m p n =
     (case p of Null \<Rightarrow> if n = 0 then Inr Null else Inl NullDereference
      | Ptr a i \<Rightarrow> (case m a of None \<Rightarrow> Inl OutOfBounds
         | Some bs \<Rightarrow> if 0 \<le> i + n \<and> i + n \<le> int (length bs) then Inr (Ptr a (i + n))
                     else Inl OutOfBounds))"

definition strlen :: "memory \<Rightarrow> ptr \<Rightarrow> nat result" where
  "strlen m p =
     (case p of Null \<Rightarrow> Inl NullDereference
      | Ptr a i \<Rightarrow> (case m a of None \<Rightarrow> Inl OutOfBounds
         | Some bs \<Rightarrow> if i < 0 then Inl OutOfBounds
             else (case memchr 0 (drop (nat i) bs) of None \<Rightarrow> Inl OutOfBounds | Some n \<Rightarrow> Inr n)))"

fun cmp_bytes :: "byte list \<Rightarrow> byte list \<Rightarrow> int" where
  "cmp_bytes (x # xs) (y # ys) = (if x < y then - 1 else if y < x then 1 else cmp_bytes xs ys)"
| "cmp_bytes _ _ = 0"

definition memcmp :: "memory \<Rightarrow> ptr \<Rightarrow> ptr \<Rightarrow> int \<Rightarrow> int result" where
  "memcmp m p q n =
     bindR (load m p (to_size n)) (\<lambda>xs. bindR (load m q (to_size n)) (\<lambda>ys. Inr (cmp_bytes xs ys)))"

text \<open>\<open>std::string(const char*, size_t)\<close> and \<open>std::string::assign\<close>: a copy of the bytes.\<close>

definition std_string :: "memory \<Rightarrow> ptr \<Rightarrow> int \<Rightarrow> byte list result" where
  "std_string m p n =
     (if p = Null \<and> to_size n \<noteq> 0 then Inl LogicError
      else if max_size < to_size n then Inl LengthError
      else load m p (to_size n))"

section \<open>The classes\<close>

record string_arg =
  sa_str :: ptr

definition StringArg_chars :: "ptr \<Rightarrow> string_arg" where
  "StringArg_chars str = \<lparr>sa_str = str\<rparr>"

text \<open>A \<open>std::string\<close> argument is given by its data pointer and its size.\<close>

definition StringArg_string :: "ptr \<times> nat \<Rightarrow> string_arg" where
  "StringArg_string str = \<lparr>sa_str = fst str\<rparr>"

definition c_str :: "string_arg \<Rightarrow> ptr" where
  "c_str a = sa_str a"

record string_piece =
  sp_ptr :: ptr
  sp_length :: int

definition StringPiece_default :: string_piece where
  "StringPiece_default = \<lparr>sp_ptr = Null, sp_length = 0\<rparr>"

definition StringPiece_chars :: "memory \<Rightarrow> ptr \<Rightarrow> string_piece result" where
  "StringPiece_chars m str =
     bindR (strlen m str) (\<lambda>n. Inr \<lparr>sp_ptr = str, sp_length = cast_int n\<rparr>)"

definition StringPiece_uchars :: "memory \<Rightarrow> ptr \<Rightarrow> string_piece result" where
  "StringPiece_uchars m str =
     bindR (strlen m str) (\<lambda>n. Inr \<lparr>sp_ptr = str, sp_length = cast_int n\<rparr>)"

definition StringPiece_string :: "ptr \<times> nat \<Rightarrow> string_piece" where
  "StringPiece_string str = \<lparr>sp_ptr = fst str, sp_length = cast_int (snd str)\<rparr>"

definition StringPiece_range :: "ptr \<Rightarrow> int \<Rightarrow> string_piece" where
  "StringPiece_range offset len = \<lparr>sp_ptr = offset, sp_length = len\<rparr>"

definition sp_data :: "string_piece \<Rightarrow> ptr" where
  "sp_data s = sp_ptr s"

definition sp_size :: "string_piece \<Rightarrow> int" where
  "sp_size s = sp_length s"

definition sp_empty :: "string_piece \<Rightarrow> bool" where
  "sp_empty s \<longleftrightarrow> sp_length s = 0"

definition sp_begin :: "string_piece \<Rightarrow> ptr" where
  "sp_begin s = sp_ptr s"

definition sp_end :: "memory \<Rightarrow> string_piece \<Rightarrow> ptr result" where
  "sp_end m s = ptr_add m (sp_ptr s) (sp_length s)"

definition sp_clear :: "string_piece \<Rightarrow> string_piece" where
  "sp_clear s = s\<lparr>sp_ptr := Null, sp_length := 0\<rparr>"

definition sp_set_range :: "ptr \<Rightarrow> int \<Rightarrow> string_piece \<Rightarrow> string_piece" where
  "sp_set_range buf len s = s\<lparr>sp_ptr := buf, sp_length := len\<rparr>"

definition sp_set_chars :: "memory \<Rightarrow> ptr \<Rightarrow> string_piece \<Rightarrow> string_piece result" where
  "sp_set_chars m str s =
     bindR (strlen m str) (\<lambda>n. Inr (s\<lparr>sp_ptr := str, sp_length := cast_int n\<rparr>))"

definition sp_set_void :: "ptr \<Rightarrow> int \<Rightarrow> string_piece \<Rightarrow> string_piece" where
  "sp_set_void buf len s = s\<lparr>sp_ptr := buf, sp_length := len\<rparr>"

definition sp_index :: "memory \<Rightarrow> string_piece \<Rightarrow> int \<Rightarrow> byte result" where
  "sp_index m s i =
     bindR (ptr_add m (sp_ptr s) i) (\<lambda>p. bindR (load m p 1) (\<lambda>bs. Inr (hd bs)))"

definition remove_prefix :: "memory \<Rightarrow> int \<Rightarrow> string_piece \<Rightarrow> string_piece result" where
  "remove_prefix m n s =
     bindR (ptr_add m (sp_ptr s) n) (\<lambda>p.
     bindR (sub_int (sp_length s) n) (\<lambda>l. Inr (s\<lparr>sp_ptr := p, sp_length := l\<rparr>)))"

definition remove_suffix :: "int \<Rightarrow> string_piece \<Rightarrow> string_piece result" where
  "remove_suffix n s = bindR (sub_int (sp_length s) n) (\<lambda>l. Inr (s\<lparr>sp_length := l\<rparr>))"

definition op_eq :: "memory \<Rightarrow> string_piece \<Rightarrow> string_piece \<Rightarrow> bool result" where
  "op_eq m s x =
     (if sp_length s = sp_length x
      then bindR (memcmp m (sp_ptr s) (sp_ptr x) (sp_length s)) (\<lambda>r. Inr (r = 0))
      else Inr False)"

definition op_ne :: "memory \<Rightarrow> string_piece \<Rightarrow> string_piece \<Rightarrow> bool result" where
  "op_ne m s x = bindR (op_eq m s x) (\<lambda>e. Inr (\<not> e))"

text \<open>The macro \<open>STRINGPIECE_BINARY_PREDICATE(cmp, auxcmp)\<close> and its four expansions.\<close>

definition binary_predicate :: "(int \<Rightarrow> int \<Rightarrow> bool) \<Rightarrow> (int \<Rightarrow> int \<Rightarrow> bool)
    \<Rightarrow> memory \<Rightarrow> string_piece \<Rightarrow> string_piece \<Rightarrow> bool result" where
  "binary_predicate cmp auxcmp m s x =
     bindR (memcmp m (sp_ptr s) (sp_ptr x)
       (if sp_length s < sp_length x then sp_length s else sp_length x)) (\<lambda>r.
     Inr (auxcmp r 0 \<or> (r = 0 \<and> cmp (sp_length s) (sp_length x))))"

definition op_lt :: "memory \<Rightarrow> string_piece \<Rightarrow> string_piece \<Rightarrow> bool result" where
  "op_lt = binary_predicate (<) (<)"

definition op_le :: "memory \<Rightarrow> string_piece \<Rightarrow> string_piece \<Rightarrow> bool result" where
  "op_le = binary_predicate (\<le>) (<)"

definition op_ge :: "memory \<Rightarrow> string_piece \<Rightarrow> string_piece \<Rightarrow> bool result" where
  "op_ge = binary_predicate (\<ge>) (>)"

definition op_gt :: "memory \<Rightarrow> string_piece \<Rightarrow> string_piece \<Rightarrow> bool result" where
  "op_gt = binary_predicate (>) (>)"

definition compare :: "memory \<Rightarrow> string_piece \<Rightarrow> string_piece \<Rightarrow> int result" where
  "compare m s x =
     bindR (memcmp m (sp_ptr s) (sp_ptr x)
       (if sp_length s < sp_length x then sp_length s else sp_length x)) (\<lambda>r.
     Inr (if r = 0 then
            (if sp_length s < sp_length x then - 1
             else if sp_length s > sp_length x then 1 else r)
          else r))"

definition as_string :: "memory \<Rightarrow> string_piece \<Rightarrow> byte list result" where
  "as_string m s = std_string m (sp_data s) (sp_size s)"

definition CopyToStdString :: "memory \<Rightarrow> string_piece \<Rightarrow> byte list result" where
  "CopyToStdString m s = std_string m (sp_ptr s) (sp_length s)"

definition starts_with :: "memory \<Rightarrow> string_piece \<Rightarrow> string_piece \<Rightarrow> bool result" where
  "starts_with m s x =
     (if sp_length s \<ge> sp_length x
      then bindR (memcmp m (sp_ptr s) (sp_ptr x) (sp_length x)) (\<lambda>r. Inr (r = 0))
      else Inr False)"

section \<open>What a view denotes\<close>

definition denotes :: "memory \<Rightarrow> string_piece \<Rightarrow> byte list \<Rightarrow> bool" where
  "denotes m s bs \<longleftrightarrow> 0 \<le> sp_length s \<and> sp_length s \<le> int_max
     \<and> load m (sp_ptr s) (nat (sp_length s)) = Inr bs"

definition sample_memory :: memory where
  "sample_memory = [1 \<mapsto> [97, 98, 99, 0], 2 \<mapsto> [97, 98, 0]]"

lemma to_size_nat: "0 \<le> n \<Longrightarrow> n \<le> int_max \<Longrightarrow> to_size n = nat n"
  by (simp add: to_size_def int_max_def)

lemma cast_int_small: "int n \<le> int_max \<Longrightarrow> cast_int n = int n"
  by (simp add: cast_int_def int_max_def signed_take_bit_int_eq_self)

lemma load_length: "load m p n = Inr bs \<Longrightarrow> length bs = n"
  by (auto simp: load_def split: if_splits ptr.splits option.splits)

lemma denotes_length: "denotes m s bs \<Longrightarrow> sp_length s = int (length bs)"
  by (auto simp: denotes_def dest: load_length)

lemma load_prefix:
  "load m p n = Inr bs \<Longrightarrow> k \<le> n \<Longrightarrow> load m p k = Inr (take k bs)"
  by (auto simp: load_def min_def split: if_splits ptr.splits option.splits)

lemma denotes_load:
  "denotes m s bs \<Longrightarrow> k \<le> length bs \<Longrightarrow> load m (sp_ptr s) k = Inr (take k bs)"
  by (metis denotes_def load_length load_prefix)

lemma denotes_memcmp:
  assumes "denotes m s xs" and "denotes m x ys" and "k \<le> length xs" and "k \<le> length ys"
  shows "memcmp m (sp_ptr s) (sp_ptr x) (int k) = Inr (cmp_bytes (take k xs) (take k ys))"
proof -
  from assms(1,3) have "int k \<le> int_max"
    using denotes_length [OF assms(1)] by (auto simp: denotes_def)
  then have "to_size (int k) = k" by (simp add: to_size_nat)
  then show ?thesis using assms by (simp add: memcmp_def denotes_load)
qed

lemma cmp_bytes_values: "cmp_bytes xs ys \<in> {- 1, 0, 1}"
  by (induction xs ys rule: cmp_bytes.induct) auto

lemma cmp_bytes_eq: "length xs = length ys \<Longrightarrow> cmp_bytes xs ys = 0 \<longleftrightarrow> xs = ys"
  by (induction xs ys rule: list_induct2) auto

text \<open>Comparing the common prefix, then the lengths, is the lexicographic order.\<close>

lemma cmp_bytes_lex:
  "(cmp_bytes (take (min (length xs) (length ys)) xs) (take (min (length xs) (length ys)) ys) < 0
    \<or> cmp_bytes (take (min (length xs) (length ys)) xs) (take (min (length xs) (length ys)) ys) = 0
       \<and> length xs < length ys) \<longleftrightarrow> xs < ys"
proof (induction xs arbitrary: ys)
  case Nil
  then show ?case by (cases ys) auto
next
  case (Cons x xs)
  then show ?case by (cases ys) auto
qed

lemma cmp_bytes_sym: "cmp_bytes ys xs = - cmp_bytes xs ys"
  by (induction xs ys rule: cmp_bytes.induct) auto

lemma cmp_bytes_lex_eq:
  "(cmp_bytes (take (min (length xs) (length ys)) xs) (take (min (length xs) (length ys)) ys) = 0
    \<and> length xs = length ys) \<longleftrightarrow> xs = ys"
  by (auto simp: cmp_bytes_eq)

lemma cmp_bytes_lex_gt:
  "(cmp_bytes (take (min (length xs) (length ys)) xs) (take (min (length xs) (length ys)) ys) > 0
    \<or> cmp_bytes (take (min (length xs) (length ys)) xs) (take (min (length xs) (length ys)) ys) = 0
       \<and> length xs > length ys) \<longleftrightarrow> ys < xs"
  using cmp_bytes_lex [of ys xs] by (simp add: cmp_bytes_sym [of _ "take _ ys"] min.commute)

text \<open>The comparison all operators start with, on views that denote byte strings.\<close>

lemma denotes_common:
  assumes "denotes m s xs" and "denotes m x ys"
  shows "memcmp m (sp_ptr s) (sp_ptr x)
      (if sp_length s < sp_length x then sp_length s else sp_length x)
    = Inr (cmp_bytes (take (min (length xs) (length ys)) xs) (take (min (length xs) (length ys)) ys))"
proof -
  have "(if sp_length s < sp_length x then sp_length s else sp_length x)
      = int (min (length xs) (length ys))"
    using assms by (simp add: denotes_length)
  then show ?thesis using denotes_memcmp [OF assms] by simp
qed

lemma denotes_block:
  assumes "denotes m s bs" and "bs \<noteq> []"
  obtains a i blk where "sp_ptr s = Ptr a i" and "m a = Some blk" and "0 \<le> i"
    and "nat i + length bs \<le> length blk" and "bs = take (length bs) (drop (nat i) blk)"
  using assms denotes_length [OF assms(1)]
  by (auto simp: denotes_def load_def split: if_splits ptr.splits option.splits)

lemma remove_prefix_denotes:
  assumes "denotes m s bs" and "bs \<noteq> []" and "n \<le> length bs"
  shows "\<exists>s'. remove_prefix m (int n) s = Inr s' \<and> denotes m s' (drop n bs)"
proof -
  obtain a i blk where blk: "sp_ptr s = Ptr a i" "m a = Some blk" "0 \<le> i"
      "nat i + length bs \<le> length blk" "bs = take (length bs) (drop (nat i) blk)"
    using denotes_block [OF assms(1,2)] by blast
  define s' where "s' = s\<lparr>sp_ptr := Ptr a (i + int n), sp_length := int (length bs - n)\<rparr>"
  have len: "sp_length s = int (length bs)" "int (length bs) \<le> int_max"
    using denotes_length [OF assms(1)] assms(1) by (auto simp: denotes_def)
  with blk assms(3) have "remove_prefix m (int n) s = Inr s'"
    by (simp add: remove_prefix_def ptr_add_def sub_int_def s'_def int_max_def of_nat_diff)
  moreover have "drop n bs = take (length bs - n) (drop (nat (i + int n)) blk)"
    using blk(3) by (subst blk(5)) (simp add: drop_take nat_add_distrib add.commute)
  then have "denotes m s' (drop n bs)"
    using blk len assms(3)
    by (auto simp: denotes_def s'_def load_def nat_add_distrib nat_int simp del: of_nat_diff of_nat_diff_if)
  ultimately show ?thesis by blast
qed

lemma remove_suffix_denotes:
  assumes "denotes m s bs" and "n \<le> length bs"
  shows "\<exists>s'. remove_suffix (int n) s = Inr s' \<and> denotes m s' (take (length bs - n) bs)"
proof -
  define s' where "s' = s\<lparr>sp_length := int (length bs - n)\<rparr>"
  have len: "sp_length s = int (length bs)" "int (length bs) \<le> int_max"
    using denotes_length [OF assms(1)] assms(1) by (auto simp: denotes_def)
  then have "remove_suffix (int n) s = Inr s'"
    using assms(2) by (simp add: remove_suffix_def sub_int_def s'_def int_max_def of_nat_diff)
  moreover have "denotes m s' (take (length bs - n) bs)"
    using denotes_load [OF assms(1), of "length bs - n"] len
    by (auto simp: denotes_def s'_def)
  ultimately show ?thesis by blast
qed

section \<open>Properties\<close>

lemma sample_denotes:
  "denotes sample_memory \<lparr>sp_ptr = Ptr 1 0, sp_length = 3\<rparr> [97, 98, 99]"
  "denotes sample_memory \<lparr>sp_ptr = Ptr 2 0, sp_length = 2\<rparr> [97, 98]"
  by (simp_all add: denotes_def sample_memory_def load_def int_max_def)

text \<open>
  C27: on views that denote byte strings, \<open>operator<\<close>, \<open><=\<close>, \<open>>\<close>, \<open>>=\<close>, \<open>==\<close>, \<open>!=\<close> and the sign
  of \<open>compare\<close> are the lexicographic order and equality of the strings, as unsigned bytes; so the
  six operators agree with each other and form a total order.
\<close>

theorem comparison_lexicographic:
  assumes "denotes m s xs" and "denotes m x ys"
  shows "op_lt m s x = Inr (xs < ys) \<and> op_le m s x = Inr (xs \<le> ys)
    \<and> op_gt m s x = Inr (xs > ys) \<and> op_ge m s x = Inr (xs \<ge> ys)
    \<and> op_eq m s x = Inr (xs = ys) \<and> op_ne m s x = Inr (xs \<noteq> ys)
    \<and> (\<exists>r. compare m s x = Inr r \<and> (r < 0 \<longleftrightarrow> xs < ys) \<and> (r = 0 \<longleftrightarrow> xs = ys) \<and> (r > 0 \<longleftrightarrow> xs > ys))"
proof -
  define r where "r = cmp_bytes (take (min (length xs) (length ys)) xs)
    (take (min (length xs) (length ys)) ys)"
  have lt: "r < 0 \<or> r = 0 \<and> length xs < length ys \<longleftrightarrow> xs < ys"
    and gt: "r > 0 \<or> r = 0 \<and> length xs > length ys \<longleftrightarrow> ys < xs"
    and eq: "r = 0 \<and> length xs = length ys \<longleftrightarrow> xs = ys"
    unfolding r_def by (rule cmp_bytes_lex cmp_bytes_lex_gt cmp_bytes_lex_eq)+
  note len = denotes_length [OF assms(1)] denotes_length [OF assms(2)]
  note mc = denotes_common [OF assms, folded r_def]
  have "op_eq m s x = Inr (xs = ys)"
    using mc len by (auto simp: op_eq_def eq [symmetric])
  moreover have "op_lt m s x = Inr (xs < ys)" "op_gt m s x = Inr (xs > ys)"
    using mc len lt gt by (auto simp: op_lt_def op_gt_def binary_predicate_def)
  moreover have "op_le m s x = Inr (xs \<le> ys)" "op_ge m s x = Inr (xs \<ge> ys)"
    using mc len lt gt eq by (auto simp: op_le_def op_ge_def binary_predicate_def le_less)
  moreover have "\<exists>r. compare m s x = Inr r \<and> (r < 0 \<longleftrightarrow> xs < ys) \<and> (r = 0 \<longleftrightarrow> xs = ys) \<and> (r > 0 \<longleftrightarrow> xs > ys)"
    using mc len lt gt eq by (auto simp: compare_def)
  ultimately show ?thesis by (simp add: op_ne_def)
qed

theorem comparison_lexicographic_witness:
  "op_lt sample_memory \<lparr>sp_ptr = Ptr 2 0, sp_length = 2\<rparr> \<lparr>sp_ptr = Ptr 1 0, sp_length = 3\<rparr> = Inr True
   \<and> op_eq sample_memory \<lparr>sp_ptr = Ptr 2 0, sp_length = 2\<rparr> \<lparr>sp_ptr = Ptr 1 0, sp_length = 3\<rparr> = Inr False"
  using comparison_lexicographic [OF sample_denotes(2,1)] by simp

text \<open>
  \<open>starts_with\<close> decides whether the string of the argument is a prefix of the string of the
  view, without reading outside either of them.
\<close>

lemma starts_with_prefix:
  assumes "denotes m s xs" and "denotes m x ys"
  shows "starts_with m s x = Inr (prefix ys xs)"
proof (cases "length ys \<le> length xs")
  case True
  with denotes_memcmp [OF assms True order_refl] show ?thesis
    using denotes_length [OF assms(1)] denotes_length [OF assms(2)]
    by (auto simp: starts_with_def cmp_bytes_eq prefix_def) (metis append_take_drop_id)
next
  case False
  then show ?thesis
    using denotes_length [OF assms(1)] denotes_length [OF assms(2)]
    by (auto simp: starts_with_def dest: prefix_length_le)
qed

text \<open>
  On a non-empty view, removing a prefix and then a suffix no longer than what is left gives
  the view of the middle of the string, and copying it out with \<open>as_string\<close> or \<open>CopyToStdString\<close>
  yields exactly those bytes.
\<close>

lemma remove_prefix_suffix:
  assumes "denotes m s bs" and "bs \<noteq> []" and "k + n \<le> length bs"
  shows "\<exists>s1 s2. remove_prefix m (int k) s = Inr s1 \<and> remove_suffix (int n) s1 = Inr s2
    \<and> as_string m s2 = Inr (take (length bs - k - n) (drop k bs))
    \<and> CopyToStdString m s2 = as_string m s2"
proof -
  obtain s1 where s1: "remove_prefix m (int k) s = Inr s1" "denotes m s1 (drop k bs)"
    using remove_prefix_denotes [OF assms(1,2), of k] assms(3) by auto
  obtain s2 where s2: "remove_suffix (int n) s1 = Inr s2"
      "denotes m s2 (take (length bs - k - n) (drop k bs))"
    using remove_suffix_denotes [OF s1(2), of n] assms(3)
    by (auto simp: le_diff_conv2)
  have "as_string m s2 = Inr (take (length bs - k - n) (drop k bs))"
    using s2(2) by (auto simp: as_string_def sp_data_def sp_size_def std_string_def denotes_def
        to_size_nat load_def int_max_def max_size_def split: if_splits)
  with s1 s2 show ?thesis by (auto simp: CopyToStdString_def as_string_def sp_data_def sp_size_def)
qed

text \<open>
  A view built from a NUL-terminated string shorter than 2 GiB denotes the bytes in front of
  the first NUL.
\<close>

lemma StringPiece_chars_denotes:
  assumes "m a = Some (bs @ 0 # rest)" and "0 \<notin> set bs" and "int (length bs) \<le> int_max"
  shows "\<exists>s. StringPiece_chars m (Ptr a 0) = Inr s \<and> denotes m s bs
    \<and> as_string m s = Inr bs"
proof -
  have "memchr 0 (bs @ 0 # rest) = Some (length bs)"
    using assms(2) by (simp add: memchr_Some nth_append)
  with assms have "StringPiece_chars m (Ptr a 0) = Inr \<lparr>sp_ptr = Ptr a 0, sp_length = int (length bs)\<rparr>"
    by (simp add: StringPiece_chars_def strlen_def cast_int_small)
  with assms show ?thesis
    by (auto simp: denotes_def load_def as_string_def sp_data_def sp_size_def std_string_def
        to_size_nat max_size_def int_max_def)
qed

end
