(* ===== verification/Callbacks.thy ===== *)
theory Callbacks
  imports Net_Prelude
begin

text \<open>
  Identities of the objects of the library, and the function objects it builds. Every
  \<open>boost::bind\<close> expression that the sources hand to an event loop or a timer is one constructor of
  \<open>closure\<close>: the function it binds and the object it holds. A closure keeps its connection alive
  when the bound argument is a \<open>shared_ptr\<close> (\<open>closure_owns\<close>), and not when it is a raw \<open>this\<close>.
  The library's own callbacks of \<open>src/src/net/Callbacks.h\<close> are slots that are empty, hold one of
  the library's default functions, or hold a function of the user, named by a number.
\<close>

type_synonym tid = nat
type_synonym loop_id = nat
type_synonym conn_id = nat
type_synonym sock_id = nat
type_synonym timer_id = nat

text \<open>The content of a \<open>boost::any\<close>: a value the library stores and hands back unseen.\<close>

type_synonym any = "nat option"

datatype closure =
    StartReadInLoop conn_id          \<comment> \<open>\<open>bind(&TcpConnection::startReadInLoop, this)\<close>\<close>
  | StopReadInLoop conn_id           \<comment> \<open>\<open>bind(&TcpConnection::stopReadInLoop, this)\<close>\<close>
  | ShutdownInLoop conn_id           \<comment> \<open>\<open>bind(&TcpConnection::shutdownInLoop, this)\<close>\<close>
  | ForceCloseInLoop conn_id         \<comment> \<open>\<open>bind(&TcpConnection::forceCloseInLoop, shared_from_this())\<close>\<close>
  | ConnectEstablished conn_id       \<comment> \<open>\<open>bind(&TcpConnection::connectEstablished, conn)\<close>\<close>
  | ConnectDestroyed conn_id         \<comment> \<open>\<open>bind(&TcpConnection::connectDestroyed, conn)\<close>\<close>
  | RemoveConnectionInLoop conn_id   \<comment> \<open>\<open>bind(&TcpServer::removeConnectionInLoop, this, conn)\<close>\<close>
  | SetCloseCallback conn_id         \<comment> \<open>\<open>bind(&TcpConnection::setCloseCallback, conn, cb)\<close>\<close>
  | AcceptorListen                   \<comment> \<open>\<open>bind(&Acceptor::listen, get_pointer(acceptor_))\<close>\<close>
  | AcceptorListenInLoop             \<comment> \<open>\<open>bind(&Acceptor::listenInLoop, this)\<close>\<close>
  | ConnectorStartInLoop             \<comment> \<open>\<open>bind(&Connector::startInLoop, this)\<close>\<close>
  | ConnectorStopInLoop              \<comment> \<open>\<open>bind(&Connector::stopInLoop, this)\<close>\<close>
  | UserTask nat                     \<comment> \<open>a function of the user\<close>

fun closure_owns :: "closure \<Rightarrow> conn_id option" where
  "closure_owns (ForceCloseInLoop c) = Some c"
| "closure_owns (ConnectEstablished c) = Some c"
| "closure_owns (ConnectDestroyed c) = Some c"
| "closure_owns (RemoveConnectionInLoop c) = Some c"
| "closure_owns (SetCloseCallback c) = Some c"
| "closure_owns _ = None"

text \<open>A \<open>boost::function\<close> slot that is not empty.\<close>

datatype callback = DefaultCallback | UserCallback nat

text \<open>The \<open>boost::system::error_code\<close> of a completion handler.\<close>

datatype error_code = Success | Eof | OtherError

text \<open>An endpoint: the text of its address and its port.\<close>

record endpoint =
  ep_address :: string
  ep_port :: nat

end
