(* ===== verification/TimerQueue.thy ===== *)
theory TimerQueue
  imports Callbacks
begin

text \<open>
  The timers of an event loop, \<open>src/src/base/TimerQueue.cpp\<close>. The queue owns its timers through the
  map \<open>timerQueue_\<close>; users and the handlers bound to a timer hold weak pointers. A timer is alive
  while the map or a \<open>shared_ptr\<close> local of running code (\<open>deadTimer\<close>, \<open>timerToKill\<close>) owns it, and
  \<open>lock()\<close> on a weak pointer succeeds exactly then: \<open>tq_refs\<close> counts those locals.

  The \<open>deadline_timer\<close> itself belongs to Boost.Asio. Of it the model keeps only the waits that were
  started and whose handler has not run yet (\<open>tq_waits\<close>: timer, delay and the \<open>interval\<close> bound into
  the handler); which wait completes when, and with which error code, is left to the environment.
  Asio documents that the handler of a wait runs exactly once, also when the wait is cancelled.

  The callback stored with a timer is a parameter; in the step relation it may be any sequence of
  calls to the queue.
\<close>

section \<open>State and operations\<close>

record timer_queue =
  tq_map :: "timer_id \<rightharpoonup> closure"
  tq_refs :: "timer_id \<Rightarrow> nat"
  tq_waits :: "(timer_id \<times> int \<times> int) list"
  tq_next :: timer_id

definition new_TimerQueue :: timer_queue where
  "new_TimerQueue = \<lparr>tq_map = Map.empty, tq_refs = (\<lambda>_. 0), tq_waits = [], tq_next = 0\<rparr>"

definition alive :: "timer_queue \<Rightarrow> timer_id \<Rightarrow> bool" where
  "alive q t \<longleftrightarrow> tq_map q t \<noteq> None \<or> 0 < tq_refs q t"

definition hold :: "timer_id \<Rightarrow> timer_queue \<Rightarrow> timer_queue" where
  "hold t q = q\<lparr>tq_refs := (tq_refs q)(t := Suc (tq_refs q t))\<rparr>"

definition release :: "timer_id \<Rightarrow> timer_queue \<Rightarrow> timer_queue" where
  "release t q = q\<lparr>tq_refs := (tq_refs q)(t := tq_refs q t - 1)\<rparr>"

definition tq_erase :: "timer_id \<Rightarrow> timer_queue \<Rightarrow> timer_queue" where
  "tq_erase t q = q\<lparr>tq_map := (tq_map q)(t := None)\<rparr>"

text \<open>\<open>expires_from_now(when)\<close> followed by \<open>async_wait(bind(&TimerQueue::handleTimer, ...))\<close>.\<close>

definition start_wait :: "timer_id \<Rightarrow> int \<Rightarrow> int \<Rightarrow> timer_queue \<Rightarrow> timer_queue" where
  "start_wait t delay interval q = q\<lparr>tq_waits := tq_waits q @ [(t, delay, interval)]\<rparr>"

definition addTimer :: "closure \<Rightarrow> int \<Rightarrow> int \<Rightarrow> timer_queue \<Rightarrow> timer_id \<times> timer_queue" where
  "addTimer cb delay interval q =
     (let t = tq_next q;
          q1 = q\<lparr>tq_next := Suc t\<rparr>;
          q2 = q1\<lparr>tq_map := (tq_map q1)(t \<mapsto> cb)\<rparr>
      in (t, start_wait t delay interval q2))"

definition tq_cancel :: "timer_id \<Rightarrow> timer_queue \<Rightarrow> timer_queue" where
  "tq_cancel t q =
     (if alive q t then
        let q1 = hold t q;
            q2 = (case tq_map q1 t of None \<Rightarrow> q1 | Some _ \<Rightarrow> tq_erase t q1)
        in release t q2
      else q)"

text \<open>
  The handler of a wait. It runs on a world \<open>'w\<close> that holds the queue: \<open>get\<close> and \<open>upd\<close> access it
  (the \<open>this\<close> pointer), \<open>run\<close> calls the stored function object, which may change the world.
\<close>

definition handleTimer :: "('w \<Rightarrow> timer_queue) \<Rightarrow> ((timer_queue \<Rightarrow> timer_queue) \<Rightarrow> 'w \<Rightarrow> 'w)
    \<Rightarrow> (closure \<Rightarrow> 'w \<Rightarrow> 'w result) \<Rightarrow> timer_id \<Rightarrow> int \<Rightarrow> error_code \<Rightarrow> 'w \<Rightarrow> 'w result" where
  "handleTimer get upd run t interval error w =
     (if alive (get w) t then
        let w1 = upd (hold t) w in
        (case tq_map (get w1) t of
           None \<Rightarrow> Inl AssertionFailed
         | Some cb \<Rightarrow>
             bindR
               (if error = Success then
                  bindR (run cb w1) (\<lambda>w2.
                  if interval = 0 then
                    (if tq_map (get w2) t = None then Inl InvalidIterator
                     else Inr (upd (tq_erase t) w2))
                  else Inr (upd (start_wait t interval interval) w2))
                else Inr (upd (tq_erase t) w1))
               (\<lambda>w3. Inr (upd (release t) w3)))
      else Inr w)"

section \<open>The queue and its environment as a step relation\<close>

datatype tq_call = AddTimer closure int int | CancelTimer timer_id

fun tq_call_run :: "tq_call \<Rightarrow> timer_queue \<Rightarrow> timer_queue" where
  "tq_call_run (AddTimer cb delay interval) q = snd (addTimer cb delay interval q)"
| "tq_call_run (CancelTimer t) q = tq_cancel t q"

definition tq_calls_run :: "tq_call list \<Rightarrow> timer_queue \<Rightarrow> timer_queue" where
  "tq_calls_run cs q = fold tq_call_run cs q"

definition drop_wait :: "nat \<Rightarrow> timer_queue \<Rightarrow> timer_queue" where
  "drop_wait i q = q\<lparr>tq_waits := take i (tq_waits q) @ drop (Suc i) (tq_waits q)\<rparr>"

text \<open>Completion of the \<open>i\<close>-th outstanding wait, with callbacks given by \<open>script\<close>.\<close>

definition fire :: "(closure \<Rightarrow> tq_call list) \<Rightarrow> nat \<Rightarrow> error_code \<Rightarrow> timer_queue \<Rightarrow> timer_queue result" where
  "fire script i error q =
     (case tq_waits q ! i of (t, delay, interval) \<Rightarrow>
        handleTimer id id (\<lambda>cb q'. Inr (tq_calls_run (script cb) q')) t interval error
          (drop_wait i q))"

inductive tq_step :: "(closure \<Rightarrow> tq_call list) \<Rightarrow> timer_queue \<Rightarrow> timer_queue \<Rightarrow> bool" for script where
  tq_step_call: "tq_step script q (tq_call_run c q)"
| tq_step_fire: "i < length (tq_waits q) \<Longrightarrow> fire script i error q = Inr q' \<Longrightarrow> tq_step script q q'"

abbreviation tq_reachable :: "(closure \<Rightarrow> tq_call list) \<Rightarrow> timer_queue \<Rightarrow> bool" where
  "tq_reachable script \<equiv> reach (\<lambda>q. q = new_TimerQueue) (tq_step script)"

text \<open>
  \<open>cancel\<close> called on another thread, one step per access: \<open>lock()\<close>, the erasure under the mutex,
  and the release of \<open>timerToKill\<close> at the end of the function. \<open>handleTimer\<close> takes no lock, so
  it may run between them.
\<close>

datatype cancel_pc = CancelStart timer_id | CancelLocked timer_id | CancelErased timer_id | CancelDone

fun cancel_step :: "cancel_pc \<Rightarrow> timer_queue \<Rightarrow> cancel_pc \<times> timer_queue" where
  "cancel_step (CancelStart t) q =
     (if alive q t then (CancelLocked t, hold t q) else (CancelDone, q))"
| "cancel_step (CancelLocked t) q =
     (CancelErased t, case tq_map q t of None \<Rightarrow> q | Some _ \<Rightarrow> tq_erase t q)"
| "cancel_step (CancelErased t) q = (CancelDone, release t q)"
| "cancel_step CancelDone q = (CancelDone, q)"

section \<open>Invariant\<close>

text \<open>
  Every registered timer outside \<open>T\<close> has exactly one outstanding wait, timers in \<open>T\<close> have none,
  and numbers not yet handed out do not occur.
\<close>

definition wait_count :: "timer_queue \<Rightarrow> timer_id \<Rightarrow> nat" where
  "wait_count q t = length (filter (\<lambda>(u, _). u = t) (tq_waits q))"

definition tq_inv :: "timer_id set \<Rightarrow> timer_queue \<Rightarrow> bool" where
  "tq_inv T q \<longleftrightarrow>
     (\<forall>t. t \<notin> T \<longrightarrow> tq_map q t \<noteq> None \<longrightarrow> wait_count q t = 1)
   \<and> (\<forall>t. t \<in> T \<longrightarrow> wait_count q t = 0)
   \<and> (\<forall>t. wait_count q t \<le> 1)
   \<and> (\<forall>t. tq_next q \<le> t \<longrightarrow> tq_map q t = None \<and> wait_count q t = 0 \<and> t \<notin> T)"

definition no_locals :: "timer_queue \<Rightarrow> bool" where
  "no_locals q \<longleftrightarrow> (\<forall>t. tq_refs q t = 0)"

named_theorems tq_defs \<open>primitive updates of the timer queue\<close>

lemmas [tq_defs] = hold_def release_def tq_erase_def start_wait_def

lemma wait_count_simps [simp]:
  "wait_count (q\<lparr>tq_map := m\<rparr>) t = wait_count q t"
  "wait_count (q\<lparr>tq_refs := r\<rparr>) t = wait_count q t"
  "wait_count (q\<lparr>tq_next := n\<rparr>) t = wait_count q t"
  "wait_count (q\<lparr>tq_waits := ws @ [(u, d, i)]\<rparr>) t = wait_count (q\<lparr>tq_waits := ws\<rparr>) t + (if u = t then 1 else 0)"
  "wait_count (q\<lparr>tq_waits := tq_waits q\<rparr>) t = wait_count q t"
  by (simp_all add: wait_count_def)

lemma addTimer_inv: "tq_inv T q \<Longrightarrow> tq_inv T (snd (addTimer cb d i q))"
  by (auto simp: tq_inv_def addTimer_def tq_defs Let_def)

lemma tq_cancel_eq:
  "tq_cancel t q = q\<lparr>tq_map := (tq_map q)(t := None)\<rparr>"
  by (auto simp: tq_cancel_def alive_def tq_defs Let_def fun_upd_idem split: option.splits)

lemma tq_cancel_inv: "tq_inv T q \<Longrightarrow> tq_inv T (tq_cancel t q)"
  by (auto simp: tq_inv_def tq_cancel_eq)

lemma tq_call_inv: "tq_inv T q \<Longrightarrow> tq_inv T (tq_call_run c q)"
  by (cases c) (auto intro: addTimer_inv tq_cancel_inv)

lemma tq_calls_inv: "tq_inv T q \<Longrightarrow> tq_inv T (tq_calls_run cs q)"
  unfolding tq_calls_run_def by (induction cs arbitrary: q) (auto intro: tq_call_inv)

lemma tq_call_refs: "tq_refs (tq_call_run c q) = tq_refs q"
  by (cases c) (auto simp: addTimer_def tq_defs tq_cancel_eq Let_def)

lemma tq_calls_refs: "tq_refs (tq_calls_run cs q) = tq_refs q"
  unfolding tq_calls_run_def by (induction cs arbitrary: q) (auto simp: tq_call_refs)

lemma tq_call_next: "tq_next q \<le> tq_next (tq_call_run c q)"
  by (cases c) (auto simp: addTimer_def tq_defs tq_cancel_eq Let_def)

lemma tq_call_map:
  "t < tq_next q \<Longrightarrow> tq_map (tq_call_run c q) t = (if c = CancelTimer t then None else tq_map q t)"
  by (cases c) (auto simp: addTimer_def tq_defs tq_cancel_eq Let_def)

text \<open>A registered timer disappears during a callback exactly when the callback cancels it.\<close>

lemma tq_calls_map:
  "t < tq_next q \<Longrightarrow>
     tq_map (tq_calls_run cs q) t = (if CancelTimer t \<in> set cs then None else tq_map q t)"
  unfolding tq_calls_run_def
proof (induction cs arbitrary: q)
  case Nil
  then show ?case by simp
next
  case (Cons c cs)
  have "t < tq_next (tq_call_run c q)"
    using Cons.prems tq_call_next [of q c] by simp
  then show ?case using Cons.IH [of "tq_call_run c q"] Cons.prems
    by (auto simp: tq_call_map tq_cancel_eq)
qed

lemma drop_wait_simps [simp]:
  "tq_map (drop_wait i q) = tq_map q" "tq_refs (drop_wait i q) = tq_refs q"
  "tq_next (drop_wait i q) = tq_next q"
  by (simp_all add: drop_wait_def)

lemma wait_count_drop:
  assumes "i < length (tq_waits q)" and "tq_waits q ! i = (t, d, n)"
  shows "wait_count q u = wait_count (drop_wait i q) u + (if u = t then 1 else 0)"
proof -
  have "tq_waits q = take i (tq_waits q) @ (t, d, n) # drop (Suc i) (tq_waits q)"
    using assms by (metis id_take_nth_drop)
  then have "wait_count q u = length (filter (\<lambda>(v, _). v = u)
      (take i (tq_waits q) @ (t, d, n) # drop (Suc i) (tq_waits q)))"
    unfolding wait_count_def by simp
  then show ?thesis by (simp add: wait_count_def drop_wait_def)
qed

lemma drop_wait_inv:
  assumes "tq_inv {} q" and "i < length (tq_waits q)" and "tq_waits q ! i = (t, d, n)"
  shows "tq_inv {t} (drop_wait i q)" and "t < tq_next q"
proof -
  note c = wait_count_drop [OF assms(2,3)]
  have "wait_count q t \<le> 1"
    using assms(1) unfolding tq_inv_def by blast
  moreover have "wait_count q t \<noteq> 0" using c [of t] by simp
  ultimately have one: "wait_count (drop_wait i q) t = 0" and "t < tq_next q"
    using c [of t] assms(1) by (auto simp: tq_inv_def not_le [symmetric])
  then show "t < tq_next q" by simp
  with one show "tq_inv {t} (drop_wait i q)"
    using assms(1) c by (auto simp: tq_inv_def split: if_splits) (metis le0)
qed

text \<open>The handler on a queue with no other owner of timers, branch by branch.\<close>

lemma fire_eq:
  assumes "tq_inv {} q" and "no_locals q"
    and "i < length (tq_waits q)" and "tq_waits q ! i = (t, d, n)"
  shows "fire script i error q =
    (case tq_map q t of
       None \<Rightarrow> Inr (drop_wait i q)
     | Some cb \<Rightarrow>
         if error = Success then
           (let q2 = tq_calls_run (script cb) (hold t (drop_wait i q)) in
            if n = 0 then (if CancelTimer t \<in> set (script cb) then Inl InvalidIterator
                           else Inr (release t (tq_erase t q2)))
            else Inr (release t (start_wait t n n q2)))
         else Inr (release t (tq_erase t (hold t (drop_wait i q)))))"
proof -
  have "t < tq_next (hold t (drop_wait i q))"
    using drop_wait_inv(2) [OF assms(1,3,4)] by (simp add: hold_def)
  from tq_calls_map [OF this] assms show ?thesis
    by (auto simp: fire_def handleTimer_def alive_def no_locals_def hold_def
        Let_def split: option.splits)
qed

lemma tq_inv_hold [simp]: "tq_inv T (hold t q) = tq_inv T q"
  and tq_inv_release [simp]: "tq_inv T (release t q) = tq_inv T q"
  by (simp_all add: tq_inv_def hold_def release_def)

lemma tq_inv_settle:
  assumes "tq_inv {t} q"
  shows "tq_inv {} (tq_erase t q)" and "tq_inv {} (start_wait t d n q)"
  using assms by (auto simp: tq_inv_def tq_defs not_le [symmetric])

lemma fire_preserves:
  assumes "tq_inv {} q" and "no_locals q" and "i < length (tq_waits q)"
    and "fire script i error q = Inr q'"
  shows "tq_inv {} q' \<and> no_locals q'"
proof -
  obtain t d n where w: "tq_waits q ! i = (t, d, n)" by (cases "tq_waits q ! i")
  note inv0 = drop_wait_inv(1) [OF assms(1,3) w]
  show ?thesis
  proof (cases "tq_map q t")
    case None
    then have "q' = drop_wait i q" using fire_eq [OF assms(1-3) w] assms(4) by simp
    with None inv0 assms(2) show ?thesis
      by (auto simp: tq_inv_def no_locals_def) (metis option.distinct(1))
  next
    case (Some cb)
    define q2 where "q2 = tq_calls_run (script cb) (hold t (drop_wait i q))"
    have inv2: "tq_inv {t} q2"
      using inv0 unfolding q2_def by (intro tq_calls_inv) simp
    have q': "q' = release t (tq_erase t q2) \<or> q' = release t (start_wait t n n q2)
        \<or> q' = release t (tq_erase t (hold t (drop_wait i q)))"
      using fire_eq [OF assms(1-3) w] assms(4) Some by (auto simp: q2_def Let_def split: if_splits)
    then have "tq_inv {} q'"
      using tq_inv_settle [OF inv2] tq_inv_settle(1) [of t "hold t (drop_wait i q)"] inv0 by auto
    moreover have "tq_refs q2 = (tq_refs q)(t := 1)"
      using assms(2) by (simp add: q2_def tq_calls_refs hold_def no_locals_def)
    with q' assms(2) have "no_locals q'" by (auto simp: no_locals_def tq_defs)
    ultimately show ?thesis ..
  qed
qed

interpretation tq: inductive_invariant
  "\<lambda>q. q = new_TimerQueue" "tq_step script" "\<lambda>q. tq_inv {} q \<and> no_locals q" for script
proof unfold_locales
  fix q :: timer_queue
  assume "q = new_TimerQueue"
  then show "tq_inv {} q \<and> no_locals q"
    by (simp add: tq_inv_def no_locals_def new_TimerQueue_def wait_count_def)
next
  fix q q'
  assume inv: "tq_inv {} q \<and> no_locals q" and "tq_step script q q'"
  from this(2) show "tq_inv {} q' \<and> no_locals q'"
    using inv by cases (auto simp: tq_call_inv tq_call_refs no_locals_def dest: fire_preserves)
qed

text \<open>The local pointer of the handler makes no difference to the calls and is gone at its end.\<close>

lemma tq_call_hold: "tq_call_run c (hold t q) = hold t (tq_call_run c q)"
  by (cases c) (auto simp: addTimer_def tq_defs tq_cancel_eq Let_def)

lemma tq_calls_hold: "tq_calls_run cs (hold t q) = hold t (tq_calls_run cs q)"
  unfolding tq_calls_run_def by (induction cs arbitrary: q) (auto simp: tq_call_hold)

lemma tq_release_hold:
  "release t (tq_erase t (hold t q)) = tq_erase t q"
  "release t (start_wait t d n (hold t q)) = start_wait t d n q"
  by (simp_all add: tq_defs)

lemma fire_cases:
  assumes "tq_inv {} q" and "no_locals q"
    and "i < length (tq_waits q)" and "tq_waits q ! i = (t, d, n)"
  shows "fire script i error q =
    (case tq_map q t of
       None \<Rightarrow> Inr (drop_wait i q)
     | Some cb \<Rightarrow>
         if error = Success then
           (let after = tq_calls_run (script cb) (drop_wait i q) in
            if n = 0 then (if CancelTimer t \<in> set (script cb) then Inl InvalidIterator
                           else Inr (tq_erase t after))
            else Inr (start_wait t n n after))
         else Inr (tq_erase t (drop_wait i q)))"
  using fire_eq [OF assms, of script error]
  by (auto simp: tq_calls_hold tq_release_hold Let_def split: option.splits)

section \<open>Properties\<close>

text \<open>A queue with a one-shot and a periodic timer, reached by two calls.\<close>

definition sample_queue :: timer_queue where
  "sample_queue = snd (addTimer (UserTask 2) 20 20 (snd (addTimer (UserTask 1) 10 0 new_TimerQueue)))"

lemma tq_reachable_call: "tq_reachable script q \<Longrightarrow> tq_reachable script (tq_call_run c q)"
  by (erule reach_step) (rule tq_step_call)

lemma sample_queue_reachable: "tq_reachable script sample_queue"
proof -
  have "tq_reachable script new_TimerQueue" by (rule reach_init) simp
  from tq_reachable_call [OF tq_reachable_call [OF this, of "AddTimer (UserTask 1) 10 0"],
      of "AddTimer (UserTask 2) 20 20"]
  show ?thesis by (simp add: sample_queue_def)
qed

lemma sample_queue_fields:
  "tq_waits sample_queue = [(0, 10, 0), (1, 20, 20)]"
  "tq_map sample_queue = [0 \<mapsto> UserTask 1, 1 \<mapsto> UserTask 2]"
  by (simp_all add: sample_queue_def addTimer_def new_TimerQueue_def start_wait_def Let_def)

text \<open>
  C5: in every state the queue reaches by additions, cancellations and completed waits (whatever
  the callbacks do to the queue), a registered timer has exactly one outstanding wait, so it
  neither gets lost nor fires twice for one expiry, and no running code owns a timer any more.
\<close>

theorem registered_timer_has_one_wait:
  assumes "tq_reachable script q" and "tq_map q t = Some cb"
  shows "wait_count q t = 1 \<and> tq_refs q t = 0"
  using tq.reachable_inv [OF assms(1)] assms(2) by (simp add: tq_inv_def no_locals_def)

theorem registered_timer_has_one_wait_witness:
  "wait_count sample_queue 1 = 1 \<and> tq_refs sample_queue 1 = 0"
  using registered_timer_has_one_wait [OF sample_queue_reachable, of 1 "UserTask 2"]
  by (simp add: sample_queue_fields)

text \<open>
  C22: with \<open>handleTimer\<close> and \<open>cancel\<close> running one at a time, the assertion that the timer of a
  live weak pointer is still in the map never fails. The handler goes wrong in exactly one
  situation: the callback of a one-shot timer cancels its own timer, after which the handler
  erases through an iterator that is no longer valid.
\<close>

theorem handleTimer_fails_iff_self_cancel:
  assumes "tq_reachable script q" and "i < length (tq_waits q)" and "tq_waits q ! i = (t, d, n)"
  shows "fire script i error q = Inl e \<longleftrightarrow>
    e = InvalidIterator \<and> error = Success \<and> n = 0
    \<and> (\<exists>cb. tq_map q t = Some cb \<and> CancelTimer t \<in> set (script cb))"
  using tq.reachable_inv [OF assms(1)] fire_eq [OF _ _ assms(2,3), of script error]
  by (auto simp: Let_def split: option.splits if_splits)

theorem handleTimer_fails_iff_self_cancel_witness:
  "fire (\<lambda>_. [CancelTimer 0]) 0 Success sample_queue = Inl InvalidIterator
   \<and> fire (\<lambda>_. [CancelTimer 1]) 0 Success sample_queue \<noteq> Inl InvalidIterator"
proof -
  have "0 < length (tq_waits sample_queue)" "tq_waits sample_queue ! 0 = (0, 10, 0)"
    by (simp_all add: sample_queue_fields)
  from handleTimer_fails_iff_self_cancel [OF sample_queue_reachable this]
  show ?thesis by (simp add: sample_queue_fields)
qed

text \<open>
  What a completed wait does. For a timer that was cancelled nothing happens. Otherwise the
  callback runs once; afterwards a one-shot timer is gone, with no wait left, and a periodic timer
  is armed again with its interval unless the callback cancelled it. A wait that ends in an error
  removes the timer without a callback.
\<close>

lemma handleTimer_effect:
  assumes "tq_reachable script q" and "i < length (tq_waits q)" and "tq_waits q ! i = (t, d, n)"
    and "fire script i error q = Inr q'"
  shows "case tq_map q t of
      None \<Rightarrow> q' = drop_wait i q
    | Some cb \<Rightarrow>
        if error \<noteq> Success then q' = tq_cancel t (drop_wait i q)
        else let after = tq_calls_run (script cb) (drop_wait i q) in
          if n = 0 then q' = tq_cancel t after \<and> tq_map q' t = None \<and> wait_count q' t = 0
          else tq_waits q' = tq_waits after @ [(t, n, n)] \<and> wait_count q' t = 1
            \<and> tq_map q' t = (if CancelTimer t \<in> set (script cb) then None else Some cb)"
proof -
  note inv = tq.reachable_inv [OF assms(1)]
  note d = drop_wait_inv [OF conjunct1 [OF inv] assms(2,3)]
  show ?thesis
  proof (cases "tq_map q t")
    case None
    with fire_eq [OF conjunct1 [OF inv] conjunct2 [OF inv] assms(2,3)] assms(4) show ?thesis by simp
  next
    case (Some cb)
    let ?after = "tq_calls_run (script cb) (drop_wait i q)"
    have "wait_count ?after t = 0"
      using tq_calls_inv [OF d(1), of "script cb"] by (simp add: tq_inv_def)
    moreover have "tq_map ?after t = (if CancelTimer t \<in> set (script cb) then None else Some cb)"
      using tq_calls_map [of t "drop_wait i q" "script cb"] d(2) Some by simp
    ultimately show ?thesis
      using fire_cases [OF conjunct1 [OF inv] conjunct2 [OF inv] assms(2,3), of script error] assms(4) Some
      by (auto simp: tq_cancel_eq tq_erase_def start_wait_def Let_def split: if_splits)
  qed
qed

text \<open>
  C30: \<open>cancel\<close> from another thread races with \<open>handleTimer\<close>. If the wait completes after \<open>cancel\<close>
  erased the timer and before it released its own pointer to it, the handler still locks the weak
  pointer, does not find the timer in the map, and its assertion aborts the process.
\<close>

theorem cancel_races_with_handleTimer:
  assumes "tq_map q t = Some cb" and "tq_waits q ! i = (t, d, n)"
    and "cancel_step (CancelStart t) q = (pc1, q1)" and "cancel_step pc1 q1 = (pc2, q2)"
  shows "pc2 = CancelErased t \<and> fire script i error q2 = Inl AssertionFailed"
proof -
  have pc: "pc1 = CancelLocked t" "q1 = hold t q"
    using assms(1,3) by (auto simp: alive_def)
  with assms(1,4) have q2: "pc2 = CancelErased t" "q2 = tq_erase t (hold t q)"
    by (auto simp: hold_def)
  then have "tq_waits q2 = tq_waits q" "tq_map q2 t = None" "0 < tq_refs q2 t"
    by (simp_all add: tq_defs)
  with q2(1) assms(2) show ?thesis
    by (simp add: fire_def handleTimer_def alive_def hold_def)
qed

theorem cancel_races_with_handleTimer_witness:
  "\<exists>pc1 q1 q2. cancel_step (CancelStart 0) sample_queue = (pc1, q1)
     \<and> cancel_step pc1 q1 = (CancelErased 0, q2)
     \<and> fire (\<lambda>_. []) 0 Success q2 = Inl AssertionFailed"
proof -
  obtain pc1 q1 where 1: "cancel_step (CancelStart 0) sample_queue = (pc1, q1)" by (rule prod.exhaust)
  obtain pc2 q2 where 2: "cancel_step pc1 q1 = (pc2, q2)" by (rule prod.exhaust)
  have "tq_map sample_queue 0 = Some (UserTask 1)" "tq_waits sample_queue ! 0 = (0, 10, 0)"
    by (simp_all add: sample_queue_fields)
  from cancel_races_with_handleTimer [OF this 1 2] 1 2 show ?thesis by blast
qed

end
