(* ===== verification/EventLoop.thy ===== *)
theory EventLoop
  imports TimerQueue
begin

text \<open>
  The event loop, \<open>src/src/base/EventLoop.h\<close> and \<open>EventLoop.cpp\<close>: an \<open>io_service\<close> of Boost.Asio
  that belongs to the thread it was built in, with a timer queue and a user context.

  All loops live in a world: the running thread (\<open>boost::this_thread\<close>), the thread-local
  \<open>t_loopInThisThread\<close> of every thread, and the loop objects by their address. The worlds of the
  network classes extend this record, so the operations here are stated for every extension.

  Of the \<open>io_service\<close> the model keeps what the sources rely on: the function objects that were
  posted and not yet run (\<open>el_posted\<close>), whether it was stopped and whether a \<open>work\<close> object keeps
  \<open>run()\<close> from returning. Asio documents that posted handlers are invoked only by threads that
  are inside \<open>run()\<close>; \<open>dispatch\<close> is the invocation of the \<open>i\<close>-th of them by the loop's thread, the
  choice of \<open>i\<close> being Asio's. \<open>runInLoop\<close> takes the meaning of its function object as an argument,
  for the case that it is called at once.
\<close>

section \<open>State and operations\<close>

record event_loop =
  el_threadId :: tid
  el_work :: bool
  el_stopped :: bool
  el_posted :: "closure list"
  el_timers :: timer_queue
  el_context :: any

record loop_world =
  this_thread :: tid
  t_loopInThisThread :: "tid \<Rightarrow> loop_id option"
  loops :: "loop_id \<rightharpoonup> event_loop"

definition getEventLoopOfCurrentThread :: "'a loop_world_scheme \<Rightarrow> loop_id option" where
  "getEventLoopOfCurrentThread w = t_loopInThisThread w (this_thread w)"

definition new_EventLoop :: "loop_id \<Rightarrow> 'a loop_world_scheme \<Rightarrow> 'a loop_world_scheme" where
  "new_EventLoop l w =
     (let me = this_thread w;
          w1 = (if t_loopInThisThread w me \<noteq> None then w
                else w\<lparr>t_loopInThisThread := (t_loopInThisThread w)(me := Some l)\<rparr>)
      in w1\<lparr>loops := (loops w1)(l \<mapsto>
           \<lparr>el_threadId = me, el_work = False, el_stopped = False, el_posted = [],
            el_timers = new_TimerQueue, el_context = None\<rparr>)\<rparr>)"

text \<open>\<open>~EventLoop\<close> only logs; the object and its members go away.\<close>

definition destroy_EventLoop :: "loop_id \<Rightarrow> 'a loop_world_scheme \<Rightarrow> 'a loop_world_scheme" where
  "destroy_EventLoop l w = w\<lparr>loops := (loops w)(l := None)\<rparr>"

text \<open>A member call through a pointer: the object has to exist.\<close>

definition with_loop :: "loop_id \<Rightarrow> (event_loop \<Rightarrow> 'b result) \<Rightarrow> 'a loop_world_scheme \<Rightarrow> 'b result" where
  "with_loop l f w = (case loops w l of None \<Rightarrow> Inl NullDereference | Some e \<Rightarrow> f e)"

definition upd_loop :: "loop_id \<Rightarrow> (event_loop \<Rightarrow> event_loop) \<Rightarrow> 'a loop_world_scheme \<Rightarrow>
    'a loop_world_scheme result" where
  "upd_loop l f w = with_loop l (\<lambda>e. Inr (w\<lparr>loops := (loops w)(l \<mapsto> f e)\<rparr>)) w"

text \<open>\<open>loop()\<close> creates the \<open>work\<close> object and enters \<open>run()\<close>; the running is the scheduler's part.\<close>

definition el_loop :: "loop_id \<Rightarrow> 'a loop_world_scheme \<Rightarrow> 'a loop_world_scheme result" where
  "el_loop l = upd_loop l (\<lambda>e. e\<lparr>el_work := True\<rparr>)"

definition el_quit :: "loop_id \<Rightarrow> 'a loop_world_scheme \<Rightarrow> 'a loop_world_scheme result" where
  "el_quit l = upd_loop l (\<lambda>e. e\<lparr>el_stopped := True\<rparr>)"

definition isInLoopThread :: "loop_id \<Rightarrow> 'a loop_world_scheme \<Rightarrow> bool result" where
  "isInLoopThread l w = with_loop l (\<lambda>e. Inr (el_threadId e = this_thread w)) w"

definition assertInLoopThread :: "loop_id \<Rightarrow> 'a loop_world_scheme \<Rightarrow> unit result" where
  "assertInLoopThread l w =
     bindR (isInLoopThread l w) (\<lambda>b. if \<not> b then assertR False (Inr ()) else Inr ())"

definition queueInLoop :: "loop_id \<Rightarrow> closure \<Rightarrow> 'a loop_world_scheme \<Rightarrow> 'a loop_world_scheme result" where
  "queueInLoop l cb = upd_loop l (\<lambda>e. e\<lparr>el_posted := el_posted e @ [cb]\<rparr>)"

definition runInLoop :: "loop_id \<Rightarrow> closure \<Rightarrow> ('a loop_world_scheme \<Rightarrow> 'a loop_world_scheme result)
    \<Rightarrow> 'a loop_world_scheme \<Rightarrow> 'a loop_world_scheme result" where
  "runInLoop l cb call w =
     bindR (isInLoopThread l w) (\<lambda>b. if b then call w else queueInLoop l cb w)"

definition runAfter :: "loop_id \<Rightarrow> int \<Rightarrow> closure \<Rightarrow> 'a loop_world_scheme \<Rightarrow>
    (timer_id \<times> 'a loop_world_scheme) result" where
  "runAfter l delayMs cb w =
     with_loop l (\<lambda>e.
       let (t, q) = addTimer cb delayMs 0 (el_timers e) in
       Inr (t, w\<lparr>loops := (loops w)(l \<mapsto> e\<lparr>el_timers := q\<rparr>)\<rparr>)) w"

definition runEvery :: "loop_id \<Rightarrow> int \<Rightarrow> closure \<Rightarrow> 'a loop_world_scheme \<Rightarrow>
    (timer_id \<times> 'a loop_world_scheme) result" where
  "runEvery l intervalMs cb w =
     with_loop l (\<lambda>e.
       let (t, q) = addTimer cb intervalMs intervalMs (el_timers e) in
       Inr (t, w\<lparr>loops := (loops w)(l \<mapsto> e\<lparr>el_timers := q\<rparr>)\<rparr>)) w"

definition el_cancel :: "loop_id \<Rightarrow> timer_id \<Rightarrow> 'a loop_world_scheme \<Rightarrow> 'a loop_world_scheme result" where
  "el_cancel l toKill = upd_loop l (\<lambda>e. e\<lparr>el_timers := tq_cancel toKill (el_timers e)\<rparr>)"

definition el_setContext :: "loop_id \<Rightarrow> any \<Rightarrow> 'a loop_world_scheme \<Rightarrow> 'a loop_world_scheme result" where
  "el_setContext l context = upd_loop l (\<lambda>e. e\<lparr>el_context := context\<rparr>)"

definition el_getContext :: "loop_id \<Rightarrow> 'a loop_world_scheme \<Rightarrow> any result" where
  "el_getContext l w = with_loop l (\<lambda>e. Inr (el_context e)) w"

text \<open>
  The loop's thread, inside \<open>run()\<close>, takes the \<open>i\<close>-th posted function object and calls it; \<open>call\<close>
  gives the meaning of the function objects.
\<close>

definition dispatch :: "(closure \<Rightarrow> 'a loop_world_scheme \<Rightarrow> 'a loop_world_scheme result) \<Rightarrow> loop_id \<Rightarrow> nat
    \<Rightarrow> 'a loop_world_scheme \<Rightarrow> 'a loop_world_scheme result" where
  "dispatch call l i w =
     with_loop l (\<lambda>e.
       if el_work e \<and> \<not> el_stopped e \<and> i < length (el_posted e) then
         call (el_posted e ! i)
           (w\<lparr>this_thread := el_threadId e,
              loops := (loops w)(l \<mapsto> e\<lparr>el_posted := take i (el_posted e) @ drop (Suc i) (el_posted e)\<rparr>)\<rparr>)
       else Inr w) w"

section \<open>Lemmas\<close>

named_theorems loop_simps \<open>unfolding of event loop calls on a loop that exists\<close>

lemma isInLoopThread_eq [loop_simps]:
  "loops w l = Some e \<Longrightarrow> isInLoopThread l w = Inr (el_threadId e = this_thread w)"
  by (simp add: isInLoopThread_def with_loop_def)

lemma assertInLoopThread_eq [loop_simps]:
  "loops w l = Some e \<Longrightarrow> assertInLoopThread l w =
     (if el_threadId e = this_thread w then Inr () else Inl AssertionFailed)"
  by (simp add: assertInLoopThread_def isInLoopThread_eq)

lemma assertInLoopThread_Inr [result_simps]:
  "assertInLoopThread l w = Inr u \<longleftrightarrow> (\<exists>e. loops w l = Some e \<and> el_threadId e = this_thread w)"
  by (auto simp: assertInLoopThread_def isInLoopThread_def with_loop_def split: option.splits if_splits)

lemma queueInLoop_eq [loop_simps]:
  "loops w l = Some e \<Longrightarrow>
     queueInLoop l cb w = Inr (w\<lparr>loops := (loops w)(l \<mapsto> e\<lparr>el_posted := el_posted e @ [cb]\<rparr>)\<rparr>)"
  by (simp add: queueInLoop_def upd_loop_def with_loop_def)

lemma runInLoop_here [loop_simps]:
  "loops w l = Some e \<Longrightarrow> el_threadId e = this_thread w \<Longrightarrow> runInLoop l cb call w = call w"
  by (simp add: runInLoop_def isInLoopThread_eq)

lemma runInLoop_elsewhere [loop_simps]:
  "loops w l = Some e \<Longrightarrow> el_threadId e \<noteq> this_thread w \<Longrightarrow>
     runInLoop l cb call w = queueInLoop l cb w"
  by (simp add: runInLoop_def isInLoopThread_eq)

section \<open>Properties\<close>

text \<open>
  \<open>runInLoop\<close> executes its function object in the loop's thread and nowhere else. In that
  thread it is called at once. From another thread it is queued behind the objects already posted
  and changes nothing else, and when the loop gets to it, the call is the one that \<open>runInLoop\<close>
  would have made in the loop's thread.
\<close>

lemma runInLoop_runs_in_loop_thread:
  assumes "loops w l = Some e" and "el_work e" and "\<not> el_stopped e"
  shows "if el_threadId e = this_thread w then runInLoop l cb (call cb) w = call cb w
    else \<exists>w'. runInLoop l cb (call cb) w = Inr w'
      \<and> loops w' = (loops w)(l \<mapsto> e\<lparr>el_posted := el_posted e @ [cb]\<rparr>)
      \<and> dispatch call l (length (el_posted e)) w' = call cb (w\<lparr>this_thread := el_threadId e\<rparr>)"
  using assms
  by (auto simp: loop_simps dispatch_def with_loop_def map_upd_triv)

text \<open>
  \<open>getEventLoopOfCurrentThread\<close> returns the first loop built in the thread, also after that
  loop was destroyed: the destructor does not clear the thread-local pointer, so it dangles, and a
  loop built afterwards in the same thread is not registered.
\<close>

lemma loop_pointer_dangles_after_destruction:
  assumes "getEventLoopOfCurrentThread w = None" and "l \<noteq> l'"
  shows "getEventLoopOfCurrentThread (new_EventLoop l w) = Some l
    \<and> getEventLoopOfCurrentThread (destroy_EventLoop l (new_EventLoop l w)) = Some l
    \<and> loops (destroy_EventLoop l (new_EventLoop l w)) l = None
    \<and> getEventLoopOfCurrentThread (new_EventLoop l' (destroy_EventLoop l (new_EventLoop l w))) = Some l"
  using assms by (simp add: getEventLoopOfCurrentThread_def new_EventLoop_def destroy_EventLoop_def Let_def)

end
