(* ===== verification/EventLoopRun.thy ===== *)
theory EventLoopRun
  imports EventLoop "HOL-Library.Multiset"
begin

text \<open>
  What becomes of the function objects that a loop is given, from any threads and by the function objects
  themselves: the world of loops is extended by the objects that were given and by those that ran, with the
  threads in which they executed.
\<close>

section \<open>Traces\<close>

record traced_world = loop_world +
  given :: "closure list"
  executed :: "(closure \<times> tid) list"

fun post_all :: "loop_id \<Rightarrow> closure list \<Rightarrow> 'a traced_world_scheme \<Rightarrow> 'a traced_world_scheme result" where
  "post_all l [] w = Inr w"
| "post_all l (f # fs) w = bindR (queueInLoop l f (w\<lparr>given := given w @ [f]\<rparr>)) (post_all l fs)"

text \<open>A function object \<open>f\<close> that is called posts the objects \<open>script f\<close>.\<close>

definition run_traced :: "(closure \<Rightarrow> closure list) \<Rightarrow> loop_id \<Rightarrow> closure \<Rightarrow> 'a traced_world_scheme \<Rightarrow>
    'a traced_world_scheme result" where
  "run_traced script l f w = post_all l (script f) (w\<lparr>executed := executed w @ [(f, this_thread w)]\<rparr>)"

inductive traced_step :: "(closure \<Rightarrow> closure list) \<Rightarrow> loop_id \<Rightarrow> 'a traced_world_scheme \<Rightarrow> 'a traced_world_scheme \<Rightarrow> bool"
  for script l where
  traced_queue: "queueInLoop l f (w\<lparr>this_thread := t, given := given w @ [f]\<rparr>) = Inr w' \<Longrightarrow> traced_step script l w w'"
| traced_run: "runInLoop l f (run_traced script l f) (w\<lparr>this_thread := t, given := given w @ [f]\<rparr>) = Inr w' \<Longrightarrow>
    traced_step script l w w'"
| traced_dispatch: "dispatch (run_traced script l) l i w = Inr w' \<Longrightarrow> traced_step script l w w'"
| traced_loop: "el_loop l w = Inr w' \<Longrightarrow> traced_step script l w w'"
| traced_quit: "el_quit l w = Inr w' \<Longrightarrow> traced_step script l w w'"

definition untraced :: "loop_id \<Rightarrow> tid \<Rightarrow> 'a traced_world_scheme \<Rightarrow> bool" where
  "untraced l T w \<longleftrightarrow> (\<exists>e. loops w l = Some e \<and> el_threadId e = T \<and> el_posted e = []) \<and> given w = [] \<and> executed w = []"

definition trace_inv :: "loop_id \<Rightarrow> tid \<Rightarrow> 'a traced_world_scheme \<Rightarrow> bool" where
  "trace_inv l T w \<longleftrightarrow> (\<exists>e. loops w l = Some e \<and> el_threadId e = T
     \<and> mset (map fst (executed w)) + mset (el_posted e) = mset (given w)) \<and> (\<forall>x\<in>set (executed w). snd x = T)"

section \<open>The invariant\<close>

lemma queueInLoop_trace:
  "trace_inv l T w \<Longrightarrow> queueInLoop l f (w\<lparr>this_thread := t, given := given w @ [f]\<rparr>) = Inr w' \<Longrightarrow> trace_inv l T w'"
  by (fastforce simp: queueInLoop_def upd_loop_def with_loop_def trace_inv_def split: option.splits)

lemma post_all_trace: "trace_inv l T w \<Longrightarrow> post_all l fs w = Inr w' \<Longrightarrow> trace_inv l T w'"
proof (induction fs arbitrary: w)
  case (Cons f fs)
  then obtain w1 where w1: "queueInLoop l f (w\<lparr>given := given w @ [f]\<rparr>) = Inr w1" "post_all l fs w1 = Inr w'"
    by (auto simp: bindR_eq_Inr)
  have "trace_inv l T w1"
    using queueInLoop_trace [OF Cons.prems(1), of f "this_thread w" w1] w1(1) by simp
  then show ?case using w1(2) by (rule Cons.IH)
qed simp

lemma run_traced_trace:
  assumes "loops w l = Some e" and "el_threadId e = T" and "this_thread w = T"
    and "mset (map fst (executed w)) + mset (el_posted e) + {#f#} = mset (given w)" and "\<forall>x\<in>set (executed w). snd x = T"
    and "run_traced script l f w = Inr w'"
  shows "trace_inv l T w'"
  by (rule post_all_trace [OF _ assms(6) [unfolded run_traced_def]])
    (use assms(1-5) in \<open>auto simp: trace_inv_def add.commute add.left_commute\<close>)

lemma traced_step_inv: "traced_step script l w w' \<Longrightarrow> trace_inv l T w \<Longrightarrow> trace_inv l T w'"
proof (induction rule: traced_step.induct)
  case (traced_queue f w t w')
  then show ?case by (blast intro: queueInLoop_trace)
next
  case (traced_run f w t w')
  let ?w = "w\<lparr>this_thread := t, given := given w @ [f]\<rparr>"
  obtain e where e: "loops w l = Some e" "el_threadId e = T"
    "mset (map fst (executed w)) + mset (el_posted e) = mset (given w)" "\<forall>x\<in>set (executed w). snd x = T"
    using traced_run.prems by (auto simp: trace_inv_def)
  show ?case
  proof (cases "t = T")
    case True
    with traced_run.hyps e have "run_traced script l f ?w = Inr w'"
      by (simp add: runInLoop_def isInLoopThread_def with_loop_def)
    then show ?thesis by (rule run_traced_trace [rotated 5]) (use e True in simp_all)
  next
    case False
    with traced_run.hyps e have "queueInLoop l f ?w = Inr w'"
      by (simp add: runInLoop_def isInLoopThread_def with_loop_def)
    then show ?thesis by (rule queueInLoop_trace [OF traced_run.prems])
  qed
next
  case (traced_dispatch i w w')
  obtain e where e: "loops w l = Some e" "el_threadId e = T"
    "mset (map fst (executed w)) + mset (el_posted e) = mset (given w)" "\<forall>x\<in>set (executed w). snd x = T"
    using traced_dispatch.prems by (auto simp: trace_inv_def)
  let ?e = "e\<lparr>el_posted := take i (el_posted e) @ drop (Suc i) (el_posted e)\<rparr>"
  show ?case
  proof (cases "el_work e \<and> \<not> el_stopped e \<and> i < length (el_posted e)")
    case True
    with traced_dispatch.hyps e(1,2) have run: "run_traced script l (el_posted e ! i)
        (w\<lparr>this_thread := T, loops := (loops w)(l \<mapsto> ?e)\<rparr>) = Inr w'"
      by (simp add: dispatch_def with_loop_def)
    have "mset (el_posted e) = mset (take i (el_posted e) @ el_posted e ! i # drop (Suc i) (el_posted e))"
      using True id_take_nth_drop [of i "el_posted e"] by simp
    with e(3) have "mset (map fst (executed w)) + mset (el_posted ?e) + {#el_posted e ! i#} = mset (given w)" by simp
    with run e(2,4) show ?thesis by (intro run_traced_trace [of _ l ?e, OF _ _ _ _ _ run]) simp_all
  next
    case False
    with traced_dispatch.hyps e(1) have "w' = w" by (auto simp: dispatch_def with_loop_def)
    with traced_dispatch.prems show ?thesis by simp
  qed
qed (auto simp: el_loop_def el_quit_def upd_loop_def with_loop_def trace_inv_def split: option.splits)

interpretation traced: inductive_invariant "untraced l T" "traced_step script l" "trace_inv l T" for l T script
proof
  show "trace_inv l T s" if "untraced l T s" for s using that by (auto simp: untraced_def trace_inv_def)
  show "trace_inv l T t" if "trace_inv l T s" and "traced_step script l s t" for s t
    using that(2,1) by (rule traced_step_inv)
qed

section \<open>Properties\<close>


definition traced_start :: traced_world where
  "traced_start =
     \<lparr>this_thread = 1, t_loopInThisThread = (\<lambda>_. None)(1 := Some 0),
      loops = [0 \<mapsto> \<lparr>el_threadId = 1, el_work = True, el_stopped = False, el_posted = [],
        el_timers = new_TimerQueue, el_context = None\<rparr>],
      given = [], executed = []\<rparr>"


end
