(* ===== verification/Buffer.thy ===== *)
theory Buffer
  imports Net_Prelude
begin

text \<open>
  The byte buffer of \<open>src/src/base/Buffer.h\<close>: a vector of bytes with a reader and a writer index
  of type \<open>size_t\<close>, kept at their width of 64 bits. A pointer into the vector is the offset from
  \<open>begin()\<close>; \<open>NULL\<close> is \<open>None\<close>. The field names drop the trailing underscore of the sources
  (\<open>buffer_\<close> is \<open>buffer_vec\<close>). Data passed by pointer and length is the list of those bytes.

  After the operations come the representation invariant \<open>buf_ok\<close>, the abstraction \<open>content\<close>
  (the readable bytes), the functional behaviour of every operation over them, the byte queue
  contract \<open>byte_fifo\<close> with its interpretation, and the network-order integers.
\<close>

unbundle bit_operations_syntax

section \<open>State and operations\<close>

record buffer =
  buffer_vec :: "byte list"
  readerIndex :: size_t
  writerIndex :: size_t

definition kCheapPrepend :: size_t where
  "kCheapPrepend = 8"

definition kInitialSize :: size_t where
  "kInitialSize = 4096"

definition kCRLF :: "byte list" where
  "kCRLF = [13, 10]"

definition vec_size :: "buffer \<Rightarrow> size_t" where
  "vec_size b = of_nat (length (buffer_vec b))"

definition readableBytes :: "buffer \<Rightarrow> size_t" where
  "readableBytes b = writerIndex b - readerIndex b"

definition writableBytes :: "buffer \<Rightarrow> size_t" where
  "writableBytes b = vec_size b - writerIndex b"

definition prependableBytes :: "buffer \<Rightarrow> size_t" where
  "prependableBytes b = readerIndex b"

definition new_Buffer :: "size_t \<Rightarrow> buffer result" where
  "new_Buffer initialSize =
     bindR (vec_new (kCheapPrepend + initialSize)) (\<lambda>v.
       let b = \<lparr>buffer_vec = v, readerIndex = kCheapPrepend, writerIndex = kCheapPrepend\<rparr> in
       assertR (readableBytes b = 0) (
       assertR (writableBytes b = initialSize) (
       assertR (prependableBytes b = kCheapPrepend) (
       Inr b))))"

definition swap :: "buffer \<Rightarrow> buffer \<Rightarrow> buffer \<times> buffer" where
  "swap this rhs =
     (this\<lparr>buffer_vec := buffer_vec rhs, readerIndex := readerIndex rhs,
        writerIndex := writerIndex rhs\<rparr>,
      rhs\<lparr>buffer_vec := buffer_vec this, readerIndex := readerIndex this,
        writerIndex := writerIndex this\<rparr>)"

definition peek :: "buffer \<Rightarrow> size_t" where
  "peek b = readerIndex b"

definition beginWrite :: "buffer \<Rightarrow> size_t" where
  "beginWrite b = writerIndex b"

text \<open>The bytes in \<open>[lo, hi)\<close>, the memory a library call with these two pointers reads.\<close>

definition range_bytes :: "buffer \<Rightarrow> size_t \<Rightarrow> size_t \<Rightarrow> byte list" where
  "range_bytes b lo hi = take (unat hi - unat lo) (drop (unat lo) (buffer_vec b))"

definition findCRLF :: "buffer \<Rightarrow> size_t option" where
  "findCRLF b =
     (let crlf = peek b + of_nat (std_search kCRLF (range_bytes b (peek b) (beginWrite b)))
      in if crlf = beginWrite b then None else Some crlf)"

definition findCRLF_from :: "buffer \<Rightarrow> size_t \<Rightarrow> size_t option result" where
  "findCRLF_from b start =
     assertR (peek b \<le> start) (
     assertR (start \<le> beginWrite b) (
     let crlf = start + of_nat (std_search kCRLF (range_bytes b start (beginWrite b)))
     in Inr (if crlf = beginWrite b then None else Some crlf)))"

definition findEOL :: "buffer \<Rightarrow> size_t option" where
  "findEOL b =
     map_option (\<lambda>i. peek b + of_nat i) (memchr 10 (range_bytes b (peek b) (peek b + readableBytes b)))"

definition findEOL_from :: "buffer \<Rightarrow> size_t \<Rightarrow> size_t option result" where
  "findEOL_from b start =
     assertR (peek b \<le> start) (
     assertR (start \<le> beginWrite b) (
     Inr (map_option (\<lambda>i. start + of_nat i) (memchr 10 (range_bytes b start (beginWrite b))))))"

definition retrieveAll :: "buffer \<Rightarrow> buffer" where
  "retrieveAll b = b\<lparr>readerIndex := kCheapPrepend, writerIndex := kCheapPrepend\<rparr>"

definition retrieve :: "size_t \<Rightarrow> buffer \<Rightarrow> buffer result" where
  "retrieve len b =
     assertR (len \<le> readableBytes b) (
     if len < readableBytes b then Inr (b\<lparr>readerIndex := readerIndex b + len\<rparr>)
     else Inr (retrieveAll b))"

definition retrieveUntil :: "size_t \<Rightarrow> buffer \<Rightarrow> buffer result" where
  "retrieveUntil end_p b =
     assertR (peek b \<le> end_p) (
     assertR (end_p \<le> beginWrite b) (
     retrieve (end_p - peek b) b))"

definition retrieveInt32 :: "buffer \<Rightarrow> buffer result" where
  "retrieveInt32 b = retrieve 4 b"

definition retrieveInt16 :: "buffer \<Rightarrow> buffer result" where
  "retrieveInt16 b = retrieve 2 b"

definition retrieveInt8 :: "buffer \<Rightarrow> buffer result" where
  "retrieveInt8 b = retrieve 1 b"

definition retrieveAsString :: "size_t \<Rightarrow> buffer \<Rightarrow> (byte list \<times> buffer) result" where
  "retrieveAsString len b =
     assertR (len \<le> readableBytes b) (
     let result = range_bytes b (peek b) (peek b + len) in
     bindR (retrieve len b) (\<lambda>b'. Inr (result, b')))"

definition retrieveAllAsString :: "buffer \<Rightarrow> (byte list \<times> buffer) result" where
  "retrieveAllAsString b = retrieveAsString (readableBytes b) b"

definition makeSpace :: "size_t \<Rightarrow> buffer \<Rightarrow> buffer result" where
  "makeSpace len b =
     (if writableBytes b + prependableBytes b < len + kCheapPrepend then
        bindR (vec_resize (writerIndex b + len) (buffer_vec b)) (\<lambda>v. Inr (b\<lparr>buffer_vec := v\<rparr>))
      else
        assertR (kCheapPrepend < readerIndex b) (
        let readable = readableBytes b in
        bindR (std_copy_within (unat (readerIndex b)) (unat (writerIndex b)) (unat kCheapPrepend)
                 (buffer_vec b)) (\<lambda>v.
        let b' = b\<lparr>buffer_vec := v, readerIndex := kCheapPrepend,
                   writerIndex := kCheapPrepend + readable\<rparr> in
        assertR (readable = readableBytes b') (Inr b'))))"

definition ensureWritableBytes :: "size_t \<Rightarrow> buffer \<Rightarrow> buffer result" where
  "ensureWritableBytes len b =
     bindR (if writableBytes b < len then makeSpace len b else Inr b) (\<lambda>b'.
     assertR (len \<le> writableBytes b') (Inr b'))"

definition hasWritten :: "size_t \<Rightarrow> buffer \<Rightarrow> buffer result" where
  "hasWritten len b =
     assertR (len \<le> writableBytes b) (Inr (b\<lparr>writerIndex := writerIndex b + len\<rparr>))"

definition unwrite :: "size_t \<Rightarrow> buffer \<Rightarrow> buffer result" where
  "unwrite len b =
     assertR (len \<le> readableBytes b) (Inr (b\<lparr>writerIndex := writerIndex b - len\<rparr>))"

definition append_chars :: "byte list \<Rightarrow> buffer \<Rightarrow> buffer result" where
  "append_chars data b =
     (let len = of_nat (length data) in
      bindR (ensureWritableBytes len b) (\<lambda>b1.
      bindR (std_copy data (unat (beginWrite b1)) (buffer_vec b1)) (\<lambda>v.
      hasWritten len (b1\<lparr>buffer_vec := v\<rparr>))))"

definition append_string :: "byte list \<Rightarrow> buffer \<Rightarrow> buffer result" where
  "append_string str b =
     bindR (ensureWritableBytes (of_nat (length str)) b) (\<lambda>b1.
     bindR (std_copy str (unat (beginWrite b1)) (buffer_vec b1)) (\<lambda>v.
     hasWritten (of_nat (length str)) (b1\<lparr>buffer_vec := v\<rparr>)))"

definition append_void :: "byte list \<Rightarrow> buffer \<Rightarrow> buffer result" where
  "append_void data b = append_chars data b"

definition prepend :: "byte list \<Rightarrow> buffer \<Rightarrow> buffer result" where
  "prepend data b =
     (let len = of_nat (length data) in
      assertR (len \<le> prependableBytes b) (
      let b1 = b\<lparr>readerIndex := readerIndex b - len\<rparr> in
      bindR (std_copy data (unat (readerIndex b1)) (buffer_vec b1)) (\<lambda>v.
      Inr (b1\<lparr>buffer_vec := v\<rparr>))))"

section \<open>Integers in network byte order\<close>

text \<open>
  The build's target is little-endian (x86-64): the object representation of an integer lists its
  least significant byte first, and \<open>htonl\<close>, \<open>htons\<close> and their inverses reverse the bytes.
  \<open>int32_t\<close> and the like are words of their width; \<open>sint\<close> reads them as signed.
\<close>

definition le16 :: "16 word \<Rightarrow> byte list" where
  "le16 x = [ucast x, ucast (drop_bit 8 x)]"

definition le32 :: "32 word \<Rightarrow> byte list" where
  "le32 x = [ucast x, ucast (drop_bit 8 x), ucast (drop_bit 16 x), ucast (drop_bit 24 x)]"

definition of_le16 :: "byte list \<Rightarrow> 16 word" where
  "of_le16 bs = ucast (bs ! 0) OR push_bit 8 (ucast (bs ! 1))"

definition of_le32 :: "byte list \<Rightarrow> 32 word" where
  "of_le32 bs = ucast (bs ! 0) OR push_bit 8 (ucast (bs ! 1)) OR push_bit 16 (ucast (bs ! 2))
     OR push_bit 24 (ucast (bs ! 3))"

definition htons :: "16 word \<Rightarrow> 16 word" where
  "htons x = of_le16 (rev (le16 x))"

definition htonl :: "32 word \<Rightarrow> 32 word" where
  "htonl x = of_le32 (rev (le32 x))"

definition ntohs :: "16 word \<Rightarrow> 16 word" where
  "ntohs x = htons x"

definition ntohl :: "32 word \<Rightarrow> 32 word" where
  "ntohl x = htonl x"

definition appendInt32 :: "32 word \<Rightarrow> buffer \<Rightarrow> buffer result" where
  "appendInt32 x b = (let be32 = htonl x in append_void (le32 be32) b)"

definition appendInt16 :: "16 word \<Rightarrow> buffer \<Rightarrow> buffer result" where
  "appendInt16 x b = (let be16 = htons x in append_void (le16 be16) b)"

definition appendInt8 :: "8 word \<Rightarrow> buffer \<Rightarrow> buffer result" where
  "appendInt8 x b = append_void [x] b"

definition peekInt32 :: "buffer \<Rightarrow> 32 word result" where
  "peekInt32 b =
     assertR (4 \<le> readableBytes b) (
     Inr (ntohl (of_le32 (range_bytes b (peek b) (peek b + 4)))))"

definition peekInt16 :: "buffer \<Rightarrow> 16 word result" where
  "peekInt16 b =
     assertR (2 \<le> readableBytes b) (
     Inr (ntohs (of_le16 (range_bytes b (peek b) (peek b + 2)))))"

definition peekInt8 :: "buffer \<Rightarrow> 8 word result" where
  "peekInt8 b =
     assertR (1 \<le> readableBytes b) (
     Inr (range_bytes b (peek b) (peek b + 1) ! 0))"

definition readInt32 :: "buffer \<Rightarrow> (32 word \<times> buffer) result" where
  "readInt32 b =
     bindR (peekInt32 b) (\<lambda>result. bindR (retrieveInt32 b) (\<lambda>b'. Inr (result, b')))"

definition readInt16 :: "buffer \<Rightarrow> (16 word \<times> buffer) result" where
  "readInt16 b =
     bindR (peekInt16 b) (\<lambda>result. bindR (retrieveInt16 b) (\<lambda>b'. Inr (result, b')))"

definition readInt8 :: "buffer \<Rightarrow> (8 word \<times> buffer) result" where
  "readInt8 b =
     bindR (peekInt8 b) (\<lambda>result. bindR (retrieveInt8 b) (\<lambda>b'. Inr (result, b')))"

definition prependInt32 :: "32 word \<Rightarrow> buffer \<Rightarrow> buffer result" where
  "prependInt32 x b = (let be32 = htonl x in prepend (le32 be32) b)"

definition prependInt16 :: "16 word \<Rightarrow> buffer \<Rightarrow> buffer result" where
  "prependInt16 x b = (let be16 = htons x in prepend (le16 be16) b)"

definition prependInt8 :: "8 word \<Rightarrow> buffer \<Rightarrow> buffer result" where
  "prependInt8 x b = prepend [x] b"

section \<open>Invariant and abstraction\<close>

text \<open>The diagram above the class: \<open>0 \<le> readerIndex \<le> writerIndex \<le> size\<close>.\<close>

definition buf_ok :: "buffer \<Rightarrow> bool" where
  "buf_ok b \<longleftrightarrow> readerIndex b \<le> writerIndex b \<and> unat (writerIndex b) \<le> length (buffer_vec b)
     \<and> length (buffer_vec b) \<le> max_size \<and> 8 \<le> length (buffer_vec b)"

definition content :: "buffer \<Rightarrow> byte list" where
  "content b = range_bytes b (readerIndex b) (writerIndex b)"

text \<open>The value that a byte sequence in network order (most significant byte first) stands for.\<close>

definition net_value :: "byte list \<Rightarrow> int" where
  "net_value bs = foldl (\<lambda>acc x. acc * 256 + uint x) 0 bs"

text \<open>
  The mutators of the class as values, their execution, and the abstract steps they are to
  implement on the readable bytes. \<open>hasWritten\<close> exposes bytes that something else stored at
  the write pointer, so its abstract step appends any bytes of that number.
\<close>

datatype buf_op =
    Append "byte list"
  | Prepend "byte list"
  | Retrieve size_t
  | RetrieveAll
  | EnsureWritable size_t
  | HasWritten size_t
  | Unwrite size_t

fun buf_exec :: "buf_op \<Rightarrow> buffer \<Rightarrow> buffer result" where
  "buf_exec (Append data) b = append_chars data b"
| "buf_exec (Prepend data) b = prepend data b"
| "buf_exec (Retrieve len) b = retrieve len b"
| "buf_exec RetrieveAll b = Inr (retrieveAll b)"
| "buf_exec (EnsureWritable len) b = ensureWritableBytes len b"
| "buf_exec (HasWritten len) b = hasWritten len b"
| "buf_exec (Unwrite len) b = unwrite len b"

fun buf_run :: "buf_op list \<Rightarrow> buffer \<Rightarrow> buffer result" where
  "buf_run [] b = Inr b"
| "buf_run (a # as) b = bindR (buf_exec a b) (buf_run as)"

inductive abs_step :: "buf_op \<Rightarrow> byte list \<Rightarrow> byte list \<Rightarrow> bool" where
  abs_append: "abs_step (Append data) c (c @ data)"
| abs_prepend: "abs_step (Prepend data) c (data @ c)"
| abs_retrieve: "unat len \<le> length c \<Longrightarrow> abs_step (Retrieve len) c (drop (unat len) c)"
| abs_retrieveAll: "abs_step RetrieveAll c []"
| abs_ensure: "abs_step (EnsureWritable len) c c"
| abs_hasWritten: "length xs = unat len \<Longrightarrow> abs_step (HasWritten len) c (c @ xs)"
| abs_unwrite: "unat len \<le> length c \<Longrightarrow> abs_step (Unwrite len) c (take (length c - unat len) c)"

inductive abs_run :: "buf_op list \<Rightarrow> byte list \<Rightarrow> byte list \<Rightarrow> bool" where
  abs_run_nil: "abs_run [] c c"
| abs_run_cons: "abs_step a c c' \<Longrightarrow> abs_run as c' c'' \<Longrightarrow> abs_run (a # as) c c''"

text \<open>Lengths of real objects: no C++ object is larger than \<open>PTRDIFF_MAX\<close> bytes.\<close>

fun sized :: "buf_op \<Rightarrow> bool" where
  "sized (Append data) \<longleftrightarrow> length data \<le> max_size"
| "sized (Prepend data) \<longleftrightarrow> length data \<le> max_size"
| "sized (EnsureWritable len) \<longleftrightarrow> unat len \<le> max_size"
| "sized _ \<longleftrightarrow> True"

text \<open>A buffer with eight spare bytes in front, the content \<open>AB\<close> and six bytes to write.\<close>

definition sample_buffer :: buffer where
  "sample_buffer = \<lparr>buffer_vec = replicate 8 0 @ [65, 66] @ replicate 6 0, readerIndex = 8,
     writerIndex = 10\<rparr>"

text \<open>A client of a byte queue puts byte strings in and takes given numbers of bytes out.\<close>

datatype fifo_op = Put "byte list" | Get size_t

fun fifo_run :: "(byte list \<Rightarrow> 'b \<Rightarrow> 'b result) \<Rightarrow> (size_t \<Rightarrow> 'b \<Rightarrow> (byte list \<times> 'b) result)
    \<Rightarrow> fifo_op list \<Rightarrow> 'b \<Rightarrow> (byte list \<times> 'b) result" where
  "fifo_run put get [] q = Inr ([], q)"
| "fifo_run put get (Put d # xs) q = bindR (put d q) (fifo_run put get xs)"
| "fifo_run put get (Get n # xs) q =
     bindR (get n q) (\<lambda>(d, q1). bindR (fifo_run put get xs q1) (\<lambda>(ds, q2). Inr (d @ ds, q2)))"

fun fifo_input :: "fifo_op list \<Rightarrow> byte list" where
  "fifo_input [] = []"
| "fifo_input (Put d # xs) = d @ fifo_input xs"
| "fifo_input (Get n # xs) = fifo_input xs"

named_theorems buffer_defs \<open>constants and views of the buffer\<close>

lemmas [buffer_defs] = kCheapPrepend_def peek_def beginWrite_def prependableBytes_def

subsection \<open>The word-sized counters read as natural numbers\<close>

lemma buf_ok_nat:
  "buf_ok b \<longleftrightarrow> unat (readerIndex b) \<le> unat (writerIndex b)
     \<and> unat (writerIndex b) \<le> length (buffer_vec b) \<and> length (buffer_vec b) \<le> max_size
     \<and> 8 \<le> length (buffer_vec b)"
  by (simp add: buf_ok_def word_le_nat_alt)

lemma unat_readableBytes:
  "buf_ok b \<Longrightarrow> unat (readableBytes b) = unat (writerIndex b) - unat (readerIndex b)"
  by (simp add: buf_ok_def readableBytes_def unat_sub)

lemma unat_vec_size: "length (buffer_vec b) \<le> max_size \<Longrightarrow> unat (vec_size b) = length (buffer_vec b)"
  by (simp add: vec_size_def unat_of_nat_size_t)

lemma unat_writableBytes:
  "unat (writerIndex b) \<le> length (buffer_vec b) \<Longrightarrow> length (buffer_vec b) \<le> max_size \<Longrightarrow>
     unat (writableBytes b) = length (buffer_vec b) - unat (writerIndex b)"
  by (simp add: writableBytes_def unat_sub unat_vec_size word_le_nat_alt)

lemma unat_kCheapPrepend [simp]: "unat kCheapPrepend = 8"
  by (simp add: kCheapPrepend_def)

lemma length_content:
  "buf_ok b \<Longrightarrow> length (content b) = unat (writerIndex b) - unat (readerIndex b)"
  by (auto simp: content_def range_bytes_def buf_ok_nat)

lemma readable_content: "buf_ok b \<Longrightarrow> unat (readableBytes b) = length (content b)"
  by (simp add: unat_readableBytes length_content)

lemma readableBytes_eq: "buf_ok b \<Longrightarrow> readableBytes b = of_nat (length (content b))"
  by (simp add: readable_content [symmetric])

lemma le_readable: "buf_ok b \<Longrightarrow> len \<le> readableBytes b \<longleftrightarrow> unat len \<le> length (content b)"
  by (simp add: word_le_nat_alt readable_content)

lemma less_readable: "buf_ok b \<Longrightarrow> len < readableBytes b \<longleftrightarrow> unat len < length (content b)"
  by (simp add: word_less_nat_alt readable_content)

lemma content_le_max: "buf_ok b \<Longrightarrow> length (content b) \<le> max_size"
  by (auto simp: length_content buf_ok_nat)

lemma unat_plus_size_t:
  "unat (x :: size_t) + unat y < 18446744073709551616 \<Longrightarrow> unat (x + y) = unat x + unat y"
  using unat_add_lem [of x y] by simp

lemma unat_reader_plus:
  assumes "buf_ok b" and "unat len \<le> length (content b)"
  shows "unat (readerIndex b + len) = unat (readerIndex b) + unat len"
  using assms by (intro unat_plus_size_t) (auto simp: length_content buf_ok_nat max_size_def)

lemma range_bytes_prefix:
  assumes "buf_ok b" and "unat len \<le> length (content b)"
  shows "range_bytes b (peek b) (peek b + len) = take (unat len) (content b)"
  using assms unat_reader_plus [OF assms] length_content [OF assms(1)]
  by (simp add: peek_def content_def range_bytes_def min_def)

subsection \<open>Construction\<close>

lemma new_Buffer_ok:
  assumes "unat initialSize + 8 \<le> max_size"
  shows "\<exists>b. new_Buffer initialSize = Inr b \<and> buf_ok b \<and> content b = []
    \<and> unat (writableBytes b) = unat initialSize \<and> readerIndex b = kCheapPrepend"
proof -
  have n: "unat (kCheapPrepend + initialSize) = 8 + unat initialSize"
    using assms by (subst unat_plus_size_t) (simp_all add: max_size_def)
  define b where "b = \<lparr>buffer_vec = replicate (8 + unat initialSize) 0,
    readerIndex = kCheapPrepend, writerIndex = kCheapPrepend\<rparr>"
  have ok: "buf_ok b" using assms by (simp add: b_def buf_ok_nat)
  have w: "writableBytes b = initialSize"
    by (simp add: b_def writableBytes_def vec_size_def kCheapPrepend_def)
  have "new_Buffer initialSize = Inr b"
    using assms n w
    by (simp add: new_Buffer_def vec_new_def b_def readableBytes_def prependableBytes_def)
  with ok w show ?thesis
    by (auto simp: b_def content_def range_bytes_def)
qed

subsection \<open>Taking bytes out\<close>

lemma retrieveAll_ok: "buf_ok b \<Longrightarrow> buf_ok (retrieveAll b) \<and> content (retrieveAll b) = []"
  by (simp add: retrieveAll_def buf_ok_nat content_def range_bytes_def)

lemma retrieve_ok:
  assumes "buf_ok b" and "unat len \<le> length (content b)"
  shows "\<exists>b'. retrieve len b = Inr b' \<and> buf_ok b' \<and> content b' = drop (unat len) (content b)"
proof (cases "unat len < length (content b)")
  case True
  have r: "unat (readerIndex b + len) = unat (readerIndex b) + unat len"
    using assms by (rule unat_reader_plus)
  define b' where "b' = b\<lparr>readerIndex := readerIndex b + len\<rparr>"
  have "retrieve len b = Inr b'"
    using assms True by (simp add: retrieve_def le_readable less_readable b'_def)
  moreover have "buf_ok b'"
    using assms True r by (auto simp: buf_ok_nat b'_def length_content)
  moreover have "content b' = drop (unat len) (content b)"
    using r by (simp add: content_def range_bytes_def b'_def drop_take add.commute)
  ultimately show ?thesis by blast
next
  case False
  with assms retrieveAll_ok [OF assms(1)] show ?thesis
    by (auto simp: retrieve_def le_readable less_readable)
qed

lemma retrieve_too_much:
  "buf_ok b \<Longrightarrow> length (content b) < unat len \<Longrightarrow> retrieve len b = Inl AssertionFailed"
  by (simp add: retrieve_def le_readable)

lemma retrieveAsString_ok:
  assumes "buf_ok b" and "unat len \<le> length (content b)"
  shows "\<exists>b'. retrieveAsString len b = Inr (take (unat len) (content b), b') \<and> buf_ok b'
    \<and> content b' = drop (unat len) (content b)"
  using retrieve_ok [OF assms] assms
  by (auto simp: retrieveAsString_def le_readable range_bytes_prefix)

lemma unwrite_ok:
  assumes "buf_ok b" and "unat len \<le> length (content b)"
  shows "\<exists>b'. unwrite len b = Inr b' \<and> buf_ok b'
    \<and> content b' = take (length (content b) - unat len) (content b)"
proof -
  define b' where "b' = b\<lparr>writerIndex := writerIndex b - len\<rparr>"
  from assms have "unat len \<le> unat (writerIndex b)" by (simp add: length_content)
  then have w: "unat (writerIndex b - len) = unat (writerIndex b) - unat len"
    by (simp add: unat_sub word_le_nat_alt)
  with assms have "buf_ok b'"
    by (auto simp: buf_ok_nat b'_def length_content)
  moreover have "content b' = take (length (content b) - unat len) (content b)"
    using assms w by (simp add: length_content)
      (simp add: content_def range_bytes_def b'_def min_def add.commute)
  ultimately show ?thesis
    using assms by (auto simp: unwrite_def le_readable b'_def)
qed

subsection \<open>Making room and appending\<close>

text \<open>
  Growing is the only way to fail: the vector would have to exceed \<open>max_size\<close>, and neither free
  space at the end nor the space in front of the reader index is enough.
\<close>

definition no_room :: "buffer \<Rightarrow> nat \<Rightarrow> bool" where
  "no_room b n \<longleftrightarrow> length (buffer_vec b) - unat (writerIndex b) < n
     \<and> length (buffer_vec b) - unat (writerIndex b) + unat (readerIndex b) < n + 8
     \<and> max_size < unat (writerIndex b) + n"

lemma makeSpace_guard:
  assumes "buf_ok b" and "unat len \<le> max_size"
  shows "writableBytes b + prependableBytes b < len + kCheapPrepend \<longleftrightarrow>
    length (buffer_vec b) - unat (writerIndex b) + unat (readerIndex b) < unat len + 8"
proof -
  from assms have "unat (writableBytes b + prependableBytes b)
      = length (buffer_vec b) - unat (writerIndex b) + unat (readerIndex b)"
    by (subst unat_plus_size_t)
       (auto simp: unat_writableBytes prependableBytes_def buf_ok_nat max_size_def)
  moreover from assms have "unat (len + kCheapPrepend) = unat len + 8"
    by (subst unat_plus_size_t) (auto simp: max_size_def)
  ultimately show ?thesis by (simp add: word_less_nat_alt)
qed

lemma makeSpace_grow:
  assumes "buf_ok b" and "unat len \<le> max_size"
    and "length (buffer_vec b) - unat (writerIndex b) < unat len"
    and "length (buffer_vec b) - unat (writerIndex b) + unat (readerIndex b) < unat len + 8"
  shows "if max_size < unat (writerIndex b) + unat len then makeSpace len b = Inl LengthError
    else \<exists>b'. makeSpace len b = Inr b' \<and> buf_ok b' \<and> content b' = content b
      \<and> unat (writableBytes b') = unat len"
proof -
  have n: "unat (writerIndex b + len) = unat (writerIndex b) + unat len"
    using assms by (subst unat_plus_size_t) (auto simp: buf_ok_nat max_size_def)
  define v where "v = buffer_vec b
    @ replicate (unat (writerIndex b) + unat len - length (buffer_vec b)) 0"
  have eq: "makeSpace len b = (if max_size < unat (writerIndex b) + unat len
      then Inl LengthError else Inr (b\<lparr>buffer_vec := v\<rparr>))"
    using assms n by (simp add: makeSpace_def makeSpace_guard vec_resize_def v_def)
  have len: "length v = unat (writerIndex b) + unat len"
    using assms(3) by (simp add: v_def)
  have "content (b\<lparr>buffer_vec := v\<rparr>) = content b"
    using assms(1) by (auto simp: content_def range_bytes_def v_def buf_ok_nat)
  moreover have "buf_ok (b\<lparr>buffer_vec := v\<rparr>)"
    if "unat (writerIndex b) + unat len \<le> max_size"
    using assms that len by (auto simp: buf_ok_nat)
  ultimately show ?thesis
    using eq len by (auto simp: unat_writableBytes)
qed

lemma makeSpace_shift:
  assumes ok: "buf_ok b" and "unat len \<le> max_size"
    and few: "length (buffer_vec b) - unat (writerIndex b) < unat len"
    and room: "unat len + 8 \<le> length (buffer_vec b) - unat (writerIndex b) + unat (readerIndex b)"
  shows "\<exists>b'. makeSpace len b = Inr b' \<and> buf_ok b' \<and> content b' = content b
    \<and> unat len \<le> unat (writableBytes b')"
proof -
  let ?n = "length (content b)"
  have r: "8 < unat (readerIndex b)" using few room by linarith
  have n: "unat (readableBytes b) = ?n" using ok by (rule readable_content)
  have w: "unat (kCheapPrepend + readableBytes b) = 8 + ?n"
    using n content_le_max [OF ok] by (subst unat_plus_size_t) (auto simp: max_size_def)
  define v where "v = take 8 (buffer_vec b) @ content b @ drop (8 + ?n) (buffer_vec b)"
  define b' where "b' = b\<lparr>buffer_vec := v, readerIndex := kCheapPrepend,
    writerIndex := kCheapPrepend + readableBytes b\<rparr>"
  have in_vec: "unat (readerIndex b) + ?n \<le> length (buffer_vec b)"
    using ok by (auto simp: length_content buf_ok_nat)
  have lv: "length v = length (buffer_vec b)"
    using in_vec r by (simp add: v_def)
  have "copy_loop ?n (unat (readerIndex b)) 8 (buffer_vec b) = v"
    using r in_vec length_content [OF ok]
    by (simp add: copy_loop_eq v_def content_def range_bytes_def)
  then have "std_copy_within (unat (readerIndex b)) (unat (writerIndex b)) 8 (buffer_vec b) = Inr v"
    using ok in_vec r length_content [OF ok] by (auto simp: std_copy_within_def buf_ok_nat)
  moreover have "readableBytes b' = readableBytes b"
    by (simp add: readableBytes_def b'_def)
  ultimately have "makeSpace len b = Inr b'"
    using assms r makeSpace_guard [of b len]
    by (simp add: makeSpace_def word_less_nat_alt b'_def [symmetric])
  moreover have "buf_ok b'"
    using ok w lv in_vec r by (auto simp: buf_ok_nat b'_def)
  moreover have "content b' = content b"
  proof -
    have "content b' = take ?n (drop 8 v)"
      using w by (simp add: content_def range_bytes_def b'_def)
    also have "\<dots> = content b"
      using r in_vec by (simp add: v_def)
    finally show ?thesis .
  qed
  moreover have "unat len \<le> unat (writableBytes b')"
    using w lv ok room length_content [OF ok] in_vec
    by (subst unat_writableBytes) (auto simp: b'_def buf_ok_nat)
  ultimately show ?thesis by blast
qed

lemma ensureWritableBytes_ok:
  assumes "buf_ok b" and "unat len \<le> max_size"
  shows "if no_room b (unat len) then ensureWritableBytes len b = Inl LengthError
    else \<exists>b'. ensureWritableBytes len b = Inr b' \<and> buf_ok b' \<and> content b' = content b
      \<and> unat len \<le> unat (writableBytes b')"
proof (cases "writableBytes b < len")
  case False
  with assms show ?thesis
    by (auto simp: ensureWritableBytes_def no_room_def word_less_nat_alt word_le_nat_alt
        unat_writableBytes buf_ok_nat)
next
  case True
  with assms have few: "length (buffer_vec b) - unat (writerIndex b) < unat len"
    by (simp add: word_less_nat_alt unat_writableBytes buf_ok_nat)
  show ?thesis
  proof (cases "length (buffer_vec b) - unat (writerIndex b) + unat (readerIndex b) < unat len + 8")
    case grow: True
    with makeSpace_grow [OF assms few grow] few True show ?thesis
      by (auto simp: ensureWritableBytes_def no_room_def word_le_nat_alt split: if_splits)
  next
    case False
    with makeSpace_shift [OF assms few] True show ?thesis
      by (auto simp: ensureWritableBytes_def no_room_def word_le_nat_alt)
  qed
qed

text \<open>Bytes that are stored at the write pointer and then committed become readable.\<close>

lemma store_hasWritten:
  assumes "buf_ok b" and "length data \<le> unat (writableBytes b)"
  shows "\<exists>b'. bindR (std_copy data (unat (beginWrite b)) (buffer_vec b))
      (\<lambda>v. hasWritten (of_nat (length data)) (b\<lparr>buffer_vec := v\<rparr>)) = Inr b'
    \<and> buf_ok b' \<and> content b' = content b @ data"
proof -
  let ?w = "unat (writerIndex b)"
  have fit: "?w + length data \<le> length (buffer_vec b)"
    using assms by (auto simp: unat_writableBytes buf_ok_nat)
  then have l: "unat (of_nat (length data) :: size_t) = length data"
    using assms by (intro unat_of_nat_size_t) (auto simp: buf_ok_nat)
  define v where "v = take ?w (buffer_vec b) @ data @ drop (?w + length data) (buffer_vec b)"
  have lv: "length v = length (buffer_vec b)" using fit by (simp add: v_def)
  have w: "unat (writerIndex b + of_nat (length data)) = ?w + length data"
    using fit assms l by (subst unat_plus_size_t) (auto simp: buf_ok_nat max_size_def)
  define b' where "b' = b\<lparr>buffer_vec := v, writerIndex := writerIndex b + of_nat (length data)\<rparr>"
  have "writableBytes (b\<lparr>buffer_vec := v\<rparr>) = writableBytes b"
    by (simp add: writableBytes_def vec_size_def lv)
  then have "bindR (std_copy data (unat (beginWrite b)) (buffer_vec b))
      (\<lambda>v. hasWritten (of_nat (length data)) (b\<lparr>buffer_vec := v\<rparr>)) = Inr b'"
    using fit assms l
    by (simp add: std_copy_def beginWrite_def hasWritten_def v_def [symmetric] word_le_nat_alt b'_def)
  moreover have "buf_ok b'"
    using assms fit w lv by (auto simp: buf_ok_nat b'_def)
  moreover have "content b' = content b @ data"
    using assms fit w by (auto simp: content_def range_bytes_def b'_def v_def buf_ok_nat drop_take)
  ultimately show ?thesis by blast
qed

lemma append_chars_ok:
  assumes "buf_ok b" and "length data \<le> max_size"
  shows "if no_room b (length data) then append_chars data b = Inl LengthError
    else \<exists>b'. append_chars data b = Inr b' \<and> buf_ok b' \<and> content b' = content b @ data"
proof -
  have l: "unat (of_nat (length data) :: size_t) = length data"
    using assms(2) by (rule unat_of_nat_size_t)
  with ensureWritableBytes_ok [OF assms(1), of "of_nat (length data)"] assms(2)
  show ?thesis
    by (cases "no_room b (length data)") (use store_hasWritten in \<open>fastforce simp: append_chars_def\<close>)+
qed

lemma append_string_chars: "append_string str b = append_chars str b"
  by (simp add: append_string_def append_chars_def Let_def)

lemma hasWritten_ok:
  assumes "buf_ok b" and "unat len \<le> unat (writableBytes b)"
  shows "\<exists>b'. hasWritten len b = Inr b' \<and> buf_ok b'
    \<and> content b' = content b @ take (unat len) (drop (unat (writerIndex b)) (buffer_vec b))"
proof -
  have w: "unat (writerIndex b + len) = unat (writerIndex b) + unat len"
    using assms by (subst unat_plus_size_t) (auto simp: unat_writableBytes buf_ok_nat max_size_def)
  define b' where "b' = b\<lparr>writerIndex := writerIndex b + len\<rparr>"
  have "buf_ok b'"
    using assms w by (auto simp: buf_ok_nat b'_def unat_writableBytes)
  moreover have "content b' = content b @ take (unat len) (drop (unat (writerIndex b)) (buffer_vec b))"
    using assms w by (simp add: content_def range_bytes_def b'_def take_drop_extend buf_ok_nat)
  ultimately show ?thesis
    using assms(2) by (auto simp: hasWritten_def word_le_nat_alt b'_def)
qed

lemma prepend_ok:
  assumes "buf_ok b" and "length data \<le> unat (readerIndex b)"
  shows "\<exists>b'. prepend data b = Inr b' \<and> buf_ok b' \<and> content b' = data @ content b
    \<and> unat (readerIndex b') = unat (readerIndex b) - length data"
proof -
  let ?r = "unat (readerIndex b)"
  have l: "unat (of_nat (length data) :: size_t) = length data"
    using assms by (intro unat_of_nat_size_t) (auto simp: buf_ok_nat)
  have r: "unat (readerIndex b - of_nat (length data)) = ?r - length data"
    using assms(2) l by (simp add: unat_sub word_le_nat_alt)
  define v where "v = take (?r - length data) (buffer_vec b) @ data @ drop ?r (buffer_vec b)"
  define b' where "b' = b\<lparr>buffer_vec := v, readerIndex := readerIndex b - of_nat (length data)\<rparr>"
  have lv: "length v = length (buffer_vec b)" using assms by (auto simp: v_def buf_ok_nat)
  have "prepend data b = Inr b'"
    using assms l r
    by (simp add: prepend_def prependableBytes_def word_le_nat_alt std_copy_def buf_ok_nat b'_def v_def)
  moreover have "buf_ok b'"
    using assms r lv by (auto simp: buf_ok_nat b'_def)
  moreover have "content b' = data @ content b"
    using assms r by (auto simp: content_def range_bytes_def b'_def v_def buf_ok_nat)
  ultimately show ?thesis using r by (auto simp: b'_def)
qed

lemma prepend_no_room:
  "length data \<le> max_size \<Longrightarrow> unat (readerIndex b) < length data \<Longrightarrow>
     prepend data b = Inl AssertionFailed"
  by (simp add: prepend_def prependableBytes_def word_le_nat_alt unat_of_nat_size_t)

subsection \<open>Every mutator implements its abstract step\<close>

lemmas buf_exec_ok = append_chars_ok ensureWritableBytes_ok prepend_ok retrieve_ok
  hasWritten_ok unwrite_ok

lemma buf_exec_sim:
  assumes "buf_ok b" and "sized a" and "buf_exec a b = Inr b'"
  shows "buf_ok b' \<and> abs_step a (content b) (content b')"
proof (cases a)
  case (Append data)
  with assms append_chars_ok [OF assms(1), of data] show ?thesis
    by (auto intro: abs_step.intros split: if_splits)
next
  case (Prepend data)
  with assms prepend_ok [OF assms(1), of data] prepend_no_room [of data b] show ?thesis
    by (cases "length data \<le> unat (readerIndex b)") (auto intro: abs_step.intros)
next
  case (Retrieve len)
  with assms retrieve_ok [OF assms(1), of len] retrieve_too_much [OF assms(1), of len] show ?thesis
    by (cases "unat len \<le> length (content b)") (auto intro: abs_step.intros)
next
  case RetrieveAll
  with assms retrieveAll_ok [OF assms(1)] show ?thesis by (auto intro: abs_step.intros)
next
  case (EnsureWritable len)
  with assms ensureWritableBytes_ok [OF assms(1), of len] show ?thesis
    by (auto intro: abs_step.intros split: if_splits)
next
  case (HasWritten len)
  with assms have le: "unat len \<le> unat (writableBytes b)"
    by (auto simp: hasWritten_def word_le_nat_alt result_simps)
  with assms have "length (take (unat len) (drop (unat (writerIndex b)) (buffer_vec b))) = unat len"
    by (auto simp: unat_writableBytes buf_ok_nat)
  with HasWritten assms hasWritten_ok [OF assms(1) le] show ?thesis
    by (auto intro: abs_step.intros)
next
  case (Unwrite len)
  with assms have "unat len \<le> length (content b)"
    by (auto simp: unwrite_def le_readable result_simps)
  with Unwrite assms unwrite_ok [OF assms(1), of len] show ?thesis
    by (auto intro: abs_step.intros)
qed

lemma buf_run_sim:
  "buf_ok b \<Longrightarrow> list_all sized as \<Longrightarrow> buf_run as b = Inr b' \<Longrightarrow>
     buf_ok b' \<and> abs_run as (content b) (content b')"
proof (induction as arbitrary: b)
  case Nil
  then show ?case by (auto intro: abs_run.intros)
next
  case (Cons a as)
  then obtain b1 where b1: "buf_exec a b = Inr b1" "buf_run as b1 = Inr b'"
    by (auto simp: result_simps)
  with Cons.prems have "buf_ok b1" "abs_step a (content b) (content b1)"
    using buf_exec_sim [of b a b1] by auto
  with Cons b1 show ?case by (auto intro: abs_run.intros)
qed

subsection \<open>The byte queue contract\<close>

locale byte_fifo =
  fixes ok :: "'b \<Rightarrow> bool"
    and bytes :: "'b \<Rightarrow> byte list"
    and put :: "byte list \<Rightarrow> 'b \<Rightarrow> 'b result"
    and get :: "size_t \<Rightarrow> 'b \<Rightarrow> (byte list \<times> 'b) result"
  assumes put_bytes: "ok q \<Longrightarrow> length d \<le> max_size \<Longrightarrow> put d q = Inr q' \<Longrightarrow>
      ok q' \<and> bytes q' = bytes q @ d"
    and get_bytes: "ok q \<Longrightarrow> get n q = Inr (d, q') \<Longrightarrow>
      ok q' \<and> d = take (unat n) (bytes q) \<and> bytes q' = drop (unat n) (bytes q)"
    and get_defined: "ok q \<Longrightarrow> unat n \<le> length (bytes q) \<Longrightarrow> \<exists>r. get n q = Inr r"
begin

text \<open>Whatever the interleaving, what came out followed by what is left is what went in.\<close>

lemma run_conserves:
  "ok q \<Longrightarrow> \<forall>d. Put d \<in> set xs \<longrightarrow> length d \<le> max_size \<Longrightarrow> fifo_run put get xs q = Inr (out, q') \<Longrightarrow>
     ok q' \<and> out @ bytes q' = bytes q @ fifo_input xs"
proof (induction xs arbitrary: q out)
  case Nil
  then show ?case by simp
next
  case (Cons x xs)
  show ?case
  proof (cases x)
    case (Put d)
    with Cons.prems obtain q1 where q1: "put d q = Inr q1" "fifo_run put get xs q1 = Inr (out, q')"
      by (auto simp: result_simps)
    moreover from Cons.prems(1,2) Put q1(1) have "ok q1 \<and> bytes q1 = bytes q @ d"
      by (intro put_bytes) auto
    ultimately show ?thesis using Cons.IH [of q1 out] Cons.prems(2) Put by auto
  next
    case (Get n)
    with Cons.prems obtain d q1 ds where
      q1: "get n q = Inr (d, q1)" "fifo_run put get xs q1 = Inr (ds, q')" "out = d @ ds"
      by (auto simp: result_simps)
    from Cons.prems(1) q1(1)
    have g: "ok q1 \<and> d = take (unat n) (bytes q) \<and> bytes q1 = drop (unat n) (bytes q)"
      by (rule get_bytes)
    with q1 Cons.IH [of q1 ds] Cons.prems(2)
    have "ok q' \<and> ds @ bytes q' = drop (unat n) (bytes q) @ fifo_input xs" by simp
    with g q1(3) Get show ?thesis by (metis append_assoc append_take_drop_id fifo_input.simps(3))
  qed
qed

text \<open>Putting a byte string into an empty queue and taking as many bytes returns it.\<close>

lemma put_get:
  assumes "ok q" "bytes q = []" "length d \<le> max_size" "put d q = Inr q1"
  shows "\<exists>q2. get (of_nat (length d)) q1 = Inr (d, q2) \<and> ok q2 \<and> bytes q2 = []"
proof -
  from assms have q1: "ok q1" "bytes q1 = d" using put_bytes [of q d q1] by auto
  from assms(3) have n: "unat (of_nat (length d) :: size_t) = length d"
    by (rule unat_of_nat_size_t)
  with q1 obtain r where r: "get (of_nat (length d)) q1 = Inr r"
    using get_defined [of q1 "of_nat (length d)"] by auto
  then obtain x q2 where x: "r = (x, q2)" by (cases r)
  with r q1 n get_bytes [of q1 "of_nat (length d)" x q2] show ?thesis by auto
qed

end

lemma retrieveAsString_inv:
  assumes "buf_ok b" and "retrieveAsString len b = Inr (d, b')"
  shows "buf_ok b' \<and> d = take (unat len) (content b) \<and> content b' = drop (unat len) (content b)"
proof -
  from assms have "unat len \<le> length (content b)"
    by (auto simp: retrieveAsString_def result_simps le_readable)
  with assms retrieveAsString_ok [OF assms(1), of len] show ?thesis by auto
qed

interpretation buf: byte_fifo buf_ok content append_chars retrieveAsString
proof unfold_locales
  show "\<And>q d q'. buf_ok q \<Longrightarrow> length d \<le> max_size \<Longrightarrow> append_chars d q = Inr q' \<Longrightarrow>
      buf_ok q' \<and> content q' = content q @ d"
    using append_chars_ok by (fastforce split: if_splits)
  show "\<And>q n d q'. buf_ok q \<Longrightarrow> retrieveAsString n q = Inr (d, q') \<Longrightarrow>
      buf_ok q' \<and> d = take (unat n) (content q) \<and> content q' = drop (unat n) (content q)"
    by (rule retrieveAsString_inv)
  show "\<And>q n. buf_ok q \<Longrightarrow> unat n \<le> length (content q) \<Longrightarrow> \<exists>r. retrieveAsString n q = Inr r"
    using retrieveAsString_ok by blast
qed

subsection \<open>Network byte order\<close>

lemma le16_of_le16: "le16 (of_le16 [a, b]) = [a, b]"
  by (auto simp: le16_def of_le16_def bit_eq_iff bit_simps dest: bit_imp_le_length)

lemma of_le16_le16: "of_le16 (le16 x) = x"
  by (auto simp: le16_def of_le16_def bit_eq_iff bit_simps)

lemma le32_of_le32: "le32 (of_le32 [a, b, c, d]) = [a, b, c, d]"
  by (auto simp: le32_def of_le32_def bit_eq_iff bit_simps dest: bit_imp_le_length)

lemma of_le32_le32: "of_le32 (le32 x) = x"
proof (rule bit_word_eqI)
  fix n
  assume "n < LENGTH(32)"
  then consider "n < 8" | "8 \<le> n" "n < 16" | "16 \<le> n" "n < 24" | "24 \<le> n" "n < 32"
    by fastforce
  then show "bit (of_le32 (le32 x)) n \<longleftrightarrow> bit x n"
    by cases (auto simp: le32_def of_le32_def bit_simps)
qed

lemma le16_htons: "le16 (htons x) = rev (le16 x)"
  unfolding htons_def by (simp add: le16_def [of x] le16_of_le16)

lemma le32_htonl: "le32 (htonl x) = rev (le32 x)"
  unfolding htonl_def by (simp add: le32_def [of x] le32_of_le32)

lemma ntohs_htons [simp]: "ntohs (htons x) = x"
  by (simp add: ntohs_def htons_def [of "htons x"] le16_htons of_le16_le16)

lemma ntohl_htonl [simp]: "ntohl (htonl x) = x"
  by (simp add: ntohl_def htonl_def [of "htonl x"] le32_htonl of_le32_le32)

lemma length_le [simp]: "length (le16 x) = 2" "length (le32 y) = 4"
  by (simp_all add: le16_def le32_def)

lemma base_256_digits:
  fixes a :: int
  assumes "0 \<le> a" and "a < 4294967296"
  shows "((a div 16777216 mod 256 * 256 + a div 65536 mod 256) * 256 + a div 256 mod 256) * 256
    + a mod 256 = a"
proof -
  have d: "a div 65536 = a div 256 div 256" "a div 16777216 = a div 256 div 256 div 256"
    by (simp_all add: zdiv_zmult2_eq [symmetric])
  have "a div 16777216 mod 256 = a div 16777216"
    using assms by (intro mod_pos_pos_trivial) simp_all
  then show ?thesis
    using div_mult_mod_eq [of a 256] div_mult_mod_eq [of "a div 256" 256]
      div_mult_mod_eq [of "a div 256 div 256" 256] d by simp
qed

lemma uint_byte_of: "uint (ucast x :: byte) = uint x mod 256"
  by (simp add: unsigned_ucast_eq take_bit_eq_mod)

lemma net_value_rev_le32: "net_value (rev (le32 x)) = uint x"
proof -
  have "net_value (rev (le32 x)) = ((uint x div 16777216 mod 256 * 256 + uint x div 65536 mod 256)
      * 256 + uint x div 256 mod 256) * 256 + uint x mod 256"
    by (simp add: net_value_def le32_def uint_byte_of drop_bit_eq_div uint_div)
  also have "\<dots> = uint x"
    using uint_lt2p [of x] by (intro base_256_digits) simp_all
  finally show ?thesis .
qed

lemma net_value_rev_le16: "net_value (rev (le16 x)) = uint x"
proof -
  have "uint x div 256 mod 256 = uint x div 256"
    using uint_lt2p [of x]
    by (intro mod_pos_pos_trivial) (simp_all add: pos_imp_zdiv_nonneg_iff)
  then show ?thesis
    by (simp add: net_value_def le16_def uint_byte_of drop_bit_eq_div uint_div)
qed

lemma uint_ntohl: "length bs = 4 \<Longrightarrow> uint (ntohl (of_le32 bs)) = net_value bs"
proof -
  assume "length bs = 4"
  then obtain a b c d where bs: "bs = [a, b, c, d]"
    by (auto simp: numeral_eq_Suc length_Suc_conv)
  have "ntohl (of_le32 bs) = of_le32 [d, c, b, a]"
    by (simp add: ntohl_def htonl_def bs le32_of_le32)
  then show ?thesis
    using net_value_rev_le32 [of "of_le32 [d, c, b, a]"] by (simp add: le32_of_le32 bs)
qed

lemma uint_ntohs: "length bs = 2 \<Longrightarrow> uint (ntohs (of_le16 bs)) = net_value bs"
proof -
  assume "length bs = 2"
  then obtain a b where bs: "bs = [a, b]"
    by (auto simp: numeral_eq_Suc length_Suc_conv)
  have "ntohs (of_le16 bs) = of_le16 [b, a]"
    by (simp add: ntohs_def htons_def bs le16_of_le16)
  then show ?thesis
    using net_value_rev_le16 [of "of_le16 [b, a]"] by (simp add: le16_of_le16 bs)
qed

lemma readInt32_content:
  assumes "buf_ok b" and "4 \<le> length (content b)"
  shows "\<exists>x b'. readInt32 b = Inr (x, b') \<and> uint x = net_value (take 4 (content b))
    \<and> buf_ok b' \<and> content b' = drop 4 (content b)"
  using assms retrieve_ok [of b 4] range_bytes_prefix [of b 4]
  by (auto simp: readInt32_def peekInt32_def retrieveInt32_def le_readable uint_ntohl)

lemma readInt16_content:
  assumes "buf_ok b" and "2 \<le> length (content b)"
  shows "\<exists>x b'. readInt16 b = Inr (x, b') \<and> uint x = net_value (take 2 (content b))
    \<and> buf_ok b' \<and> content b' = drop 2 (content b)"
  using assms retrieve_ok [of b 2] range_bytes_prefix [of b 2]
  by (auto simp: readInt16_def peekInt16_def retrieveInt16_def le_readable uint_ntohs)

lemma readInt8_content:
  assumes "buf_ok b" and "1 \<le> length (content b)"
  shows "\<exists>b'. readInt8 b = Inr (hd (content b), b') \<and> buf_ok b' \<and> content b' = tl (content b)"
  using assms retrieve_ok [of b 1] range_bytes_prefix [of b 1]
  by (cases "content b") (auto simp: readInt8_def peekInt8_def retrieveInt8_def le_readable)

lemma net_value_htonl: "net_value (le32 (htonl x)) = uint x"
  by (simp add: le32_htonl net_value_rev_le32)

lemma net_value_htons: "net_value (le16 (htons x)) = uint x"
  by (simp add: le16_htons net_value_rev_le16)

subsection \<open>Searching for line ends\<close>

lemma search_in_content:
  assumes "buf_ok b" and "n \<le> length (content b)"
  shows "unat (peek b + of_nat n) = unat (peek b) + n"
    and "peek b + of_nat n = beginWrite b \<longleftrightarrow> n = length (content b)"
proof -
  have n: "unat (of_nat n :: size_t) = n"
    using assms content_le_max [of b] by (intro unat_of_nat_size_t) simp
  then show u: "unat (peek b + of_nat n) = unat (peek b) + n"
    using unat_reader_plus [of b "of_nat n"] assms by (simp add: peek_def)
  have "peek b + of_nat n = beginWrite b \<longleftrightarrow> unat (peek b + of_nat n) = unat (beginWrite b)"
    by (simp add: word_unat_eq_iff)
  then show "peek b + of_nat n = beginWrite b \<longleftrightarrow> n = length (content b)"
    using u assms length_content [of b] by (auto simp: peek_def beginWrite_def buf_ok_nat)
qed

lemma findCRLF_cases:
  assumes "buf_ok b"
  shows "findCRLF b = (let k = std_search kCRLF (content b)
    in if k = length (content b) then None else Some (peek b + of_nat k))"
  using search_in_content(2) [OF assms std_search_le]
  by (simp add: findCRLF_def content_def peek_def beginWrite_def Let_def)

section \<open>Properties\<close>

lemma sample_ok: "buf_ok sample_buffer" "content sample_buffer = [65, 66]"
  by (simp_all add: sample_buffer_def buf_ok_nat max_size_def content_def range_bytes_def)

lemma sample_room: "n \<le> 6 \<Longrightarrow> \<not> no_room sample_buffer n"
  by (simp add: sample_buffer_def no_room_def)

text \<open>
  C1: every sequence of buffer operations that runs to its end on a fresh buffer keeps
  \<open>readerIndex \<le> writerIndex \<le> size\<close>, and the readable bytes are those that the abstract
  byte-string operations (append at the end, prepend in front, drop from the front, drop from the
  end) produce from the empty string.
\<close>

theorem buffer_refines_byte_string:
  assumes "unat initialSize + 8 \<le> max_size" and "new_Buffer initialSize = Inr b"
    and "list_all sized ops" and "buf_run ops b = Inr b'"
  shows "buf_ok b' \<and> abs_run ops [] (content b')"
proof -
  from assms(1,2) have "buf_ok b" "content b = []"
    using new_Buffer_ok [of initialSize] by auto
  with assms(3,4) show ?thesis using buf_run_sim [of b ops b'] by simp
qed

theorem buffer_refines_byte_string_witness:
  "\<exists>b b'. new_Buffer 8 = Inr b \<and> buf_run [Prepend [9], Append [1, 2, 3], Retrieve 1] b = Inr b'
     \<and> buf_ok b' \<and> abs_run [Prepend [9], Append [1, 2, 3], Retrieve 1] [] (content b')"
proof -
  let ?ops = "[Prepend [9], Append [1, 2, 3], Retrieve 1]"
  obtain b where b: "new_Buffer 8 = Inr b" "buf_ok b" "content b = []" "readerIndex b = kCheapPrepend"
    using new_Buffer_ok [of 8] by (auto simp: max_size_def)
  then obtain b1 where b1: "prepend [9] b = Inr b1" "buf_ok b1" "content b1 = [9]"
      "unat (readerIndex b1) = 7"
    using prepend_ok [of b "[9]"] by auto
  then have "\<not> no_room b1 3"
    using length_content [OF b1(2)] by (auto simp: no_room_def max_size_def)
  then obtain b2 where b2: "append_chars [1, 2, 3] b1 = Inr b2" "buf_ok b2" "content b2 = [9, 1, 2, 3]"
    using append_chars_ok [OF b1(2), of "[1, 2, 3]"] b1(3) by (auto simp: max_size_def numeral_3_eq_3)
  then obtain b' where "retrieve 1 b2 = Inr b'"
    using retrieve_ok [OF b2(2), of 1] by auto
  with b1 b2 have b': "buf_run ?ops b = Inr b'" by simp
  with buffer_refines_byte_string [of 8 b ?ops b'] b show ?thesis
    by (auto simp: max_size_def)
qed

text \<open>
  C10: \<open>append\<close> adds exactly the given bytes behind the readable ones and keeps the invariant,
  whether it finds room at the end, moves the readable bytes to the front or grows the vector. It
  fails only with \<open>std::length_error\<close>, exactly when no room is left and the vector would have to
  exceed the largest vector size; no assertion of the class fails.
\<close>

theorem append_spec:
  assumes "buf_ok b" and "length data \<le> max_size"
  shows "if no_room b (length data) then append_chars data b = Inl LengthError
    else \<exists>b'. append_chars data b = Inr b' \<and> buf_ok b' \<and> content b' = content b @ data"
  using assms by (rule append_chars_ok)

theorem append_spec_witness:
  "\<exists>b'. append_chars [1, 2, 3, 4] sample_buffer = Inr b' \<and> buf_ok b'
     \<and> content b' = [65, 66, 1, 2, 3, 4]"
  using append_spec [OF sample_ok(1), of "[1, 2, 3, 4]"] sample_ok
  by (simp add: max_size_def sample_room)

text \<open>
  \<open>ensureWritableBytes\<close> leaves the readable bytes as they are and provides the space asked
  for. In particular the assertion \<open>kCheapPrepend < readerIndex_\<close> of \<open>makeSpace\<close>, the check after
  its copy and the final assertion never fail for a length that a real object can have.
\<close>

lemma ensureWritableBytes_spec:
  assumes "buf_ok b" and "unat len \<le> max_size" and "\<not> no_room b (unat len)"
  shows "\<exists>b'. ensureWritableBytes len b = Inr b' \<and> buf_ok b' \<and> content b' = content b
    \<and> len \<le> writableBytes b'"
  using ensureWritableBytes_ok [OF assms(1,2)] assms(3) by (auto simp: word_le_nat_alt)

text \<open>
  C20: the buffer is a first-in first-out byte queue. For any interleaving of \<open>append\<close> and
  \<open>retrieveAsString\<close> that runs to its end, the bytes taken out, followed by those still readable,
  are the bytes readable at the start followed by those appended, in order: nothing is lost,
  repeated or reordered.
\<close>

theorem buffer_fifo:
  assumes "buf_ok b" and "\<forall>d. Put d \<in> set ops \<longrightarrow> length d \<le> max_size"
    and "fifo_run append_chars retrieveAsString ops b = Inr (out, b')"
  shows "buf_ok b' \<and> out @ content b' = content b @ fifo_input ops"
  using assms by (rule buf.run_conserves)

theorem buffer_fifo_witness:
  "\<exists>out b'. fifo_run append_chars retrieveAsString [Put [7, 8], Get 3] sample_buffer = Inr (out, b')
     \<and> out = [65, 66, 7] \<and> content b' = [8]"
proof -
  let ?ops = "[Put [7, 8], Get 3]"
  obtain b1 where b1: "append_chars [7, 8] sample_buffer = Inr b1" "buf_ok b1"
      "content b1 = [65, 66, 7, 8]"
    using append_chars_ok [OF sample_ok(1), of "[7, 8]"] sample_ok(2)
    by (auto simp: max_size_def no_room_def sample_buffer_def)
  then obtain out b' where run: "fifo_run append_chars retrieveAsString ?ops sample_buffer = Inr (out, b')"
      and out: "out = [65, 66, 7]"
    using retrieveAsString_ok [of b1 3] by auto
  moreover from run have "out @ content b' = content sample_buffer @ fifo_input ?ops"
    using buffer_fifo [OF sample_ok(1), of ?ops out b'] by (simp add: max_size_def)
  ultimately show ?thesis by (simp add: sample_ok(2))
qed

text \<open>
  \<open>appendInt32\<close> writes the four bytes of the integer in network order behind the readable
  bytes, and \<open>readInt32\<close> reads the value of the first four readable bytes in network order and
  consumes exactly them; on a buffer that was empty it returns the integer appended.
\<close>

lemma int32_network_order:
  assumes "buf_ok b" and "\<not> no_room b 4"
  shows "\<exists>b1 bs. appendInt32 x b = Inr b1 \<and> buf_ok b1 \<and> content b1 = content b @ bs
    \<and> length bs = 4 \<and> net_value bs = uint x
    \<and> (\<exists>y b2. readInt32 b1 = Inr (y, b2) \<and> buf_ok b2 \<and> content b2 = drop 4 (content b1)
        \<and> uint y = net_value (take 4 (content b1)) \<and> (content b = [] \<longrightarrow> y = x))"
proof -
  obtain b1 where b1: "appendInt32 x b = Inr b1" "buf_ok b1" "content b1 = content b @ le32 (htonl x)"
    using append_chars_ok [OF assms(1), of "le32 (htonl x)"] assms(2)
    by (auto simp: appendInt32_def append_void_def max_size_def)
  obtain y b2 where b2: "readInt32 b1 = Inr (y, b2)" "uint y = net_value (take 4 (content b1))"
      "buf_ok b2" "content b2 = drop 4 (content b1)"
    using readInt32_content [OF b1(2)] b1(3) by auto
  have "content b = [] \<longrightarrow> y = x"
    using b1(3) b2(2) by (auto simp: net_value_htonl word_uint_eq_iff)
  with b1 b2 net_value_htonl [of x] show ?thesis by fastforce
qed

text \<open>
  A header written by \<open>prependInt32\<close> into the space in front of the message is read back by
  \<open>readInt32\<close> with the same value, and leaves the message as it was; without four bytes of space in
  front the assertion of \<open>prepend\<close> fails.
\<close>

lemma prependInt32_roundtrip:
  assumes "buf_ok b"
  shows "if 4 \<le> unat (prependableBytes b)
    then \<exists>b1 b2. prependInt32 x b = Inr b1 \<and> buf_ok b1 \<and> readInt32 b1 = Inr (x, b2) \<and> buf_ok b2
      \<and> content b2 = content b
    else prependInt32 x b = Inl AssertionFailed"
proof (cases "4 \<le> unat (prependableBytes b)")
  case True
  then obtain b1 where b1: "prependInt32 x b = Inr b1" "buf_ok b1"
      "content b1 = le32 (htonl x) @ content b"
    using prepend_ok [OF assms, of "le32 (htonl x)"]
    by (auto simp: prependInt32_def prependableBytes_def)
  moreover obtain y b2 where "readInt32 b1 = Inr (y, b2)" "uint y = net_value (take 4 (content b1))"
      "buf_ok b2" "content b2 = drop 4 (content b1)"
    using readInt32_content [OF b1(2)] b1(3) by auto
  moreover from this b1(3) have "y = x" by (simp add: net_value_htonl word_uint_eq_iff)
  ultimately show ?thesis using True by auto
next
  case False
  then show ?thesis
    using prepend_no_room [of "le32 (htonl x)" b]
    by (simp add: prependInt32_def prependableBytes_def max_size_def)
qed

lemma no_room_mono: "no_room b m \<Longrightarrow> m \<le> n \<Longrightarrow> no_room b n"
  by (auto simp: no_room_def)

lemma int16_network_order:
  assumes "buf_ok b" and "\<not> no_room b 2"
  shows "\<exists>b1 bs. appendInt16 x b = Inr b1 \<and> buf_ok b1 \<and> content b1 = content b @ bs
    \<and> length bs = 2 \<and> net_value bs = uint x
    \<and> (\<exists>y b2. readInt16 b1 = Inr (y, b2) \<and> buf_ok b2 \<and> content b2 = drop 2 (content b1)
        \<and> uint y = net_value (take 2 (content b1)) \<and> (content b = [] \<longrightarrow> y = x))"
proof -
  obtain b1 where b1: "appendInt16 x b = Inr b1" "buf_ok b1" "content b1 = content b @ le16 (htons x)"
    using append_chars_ok [OF assms(1), of "le16 (htons x)"] assms(2)
    by (auto simp: appendInt16_def append_void_def max_size_def)
  obtain y b2 where b2: "readInt16 b1 = Inr (y, b2)" "uint y = net_value (take 2 (content b1))"
      "buf_ok b2" "content b2 = drop 2 (content b1)"
    using readInt16_content [OF b1(2)] b1(3) by auto
  have "content b = [] \<longrightarrow> y = x"
    using b1(3) b2(2) by (auto simp: net_value_htons word_uint_eq_iff)
  with b1 b2 net_value_htons [of x] show ?thesis by fastforce
qed

lemma int8_order:
  assumes "buf_ok b" and "\<not> no_room b 1"
  shows "\<exists>b1 b2. appendInt8 x b = Inr b1 \<and> buf_ok b1 \<and> content b1 = content b @ [x]
    \<and> readInt8 b1 = Inr (hd (content b1), b2) \<and> buf_ok b2 \<and> content b2 = tl (content b1)"
proof -
  obtain b1 where b1: "appendInt8 x b = Inr b1" "buf_ok b1" "content b1 = content b @ [x]"
    using append_chars_ok [OF assms(1), of "[x]"] assms(2)
    by (auto simp: appendInt8_def append_void_def max_size_def)
  with readInt8_content [OF b1(2)] show ?thesis by auto
qed

lemma prependInt16_roundtrip:
  assumes "buf_ok b" and "2 \<le> unat (prependableBytes b)"
  shows "\<exists>b1 b2. prependInt16 x b = Inr b1 \<and> buf_ok b1 \<and> readInt16 b1 = Inr (x, b2) \<and> buf_ok b2
    \<and> content b2 = content b"
proof -
  obtain b1 where b1: "prependInt16 x b = Inr b1" "buf_ok b1" "content b1 = le16 (htons x) @ content b"
    using prepend_ok [OF assms(1), of "le16 (htons x)"] assms(2)
    by (auto simp: prependInt16_def prependableBytes_def)
  moreover obtain y b2 where "readInt16 b1 = Inr (y, b2)" "uint y = net_value (take 2 (content b1))"
      "buf_ok b2" "content b2 = drop 2 (content b1)"
    using readInt16_content [OF b1(2)] b1(3) by auto
  moreover from this b1(3) have "y = x" by (simp add: net_value_htons word_uint_eq_iff)
  ultimately show ?thesis by auto
qed

lemma prependInt8_roundtrip:
  assumes "buf_ok b" and "1 \<le> unat (prependableBytes b)"
  shows "\<exists>b1 b2. prependInt8 x b = Inr b1 \<and> buf_ok b1 \<and> readInt8 b1 = Inr (x, b2) \<and> buf_ok b2
    \<and> content b2 = content b"
proof -
  obtain b1 where b1: "prependInt8 x b = Inr b1" "buf_ok b1" "content b1 = x # content b"
    using prepend_ok [OF assms(1), of "[x]"] assms(2)
    by (auto simp: prependInt8_def prependableBytes_def)
  with readInt8_content [OF b1(2)] show ?thesis by auto
qed

text \<open>
  C24: integers of 32, 16 and 8 bits. Appended, they stand behind the readable bytes in network order; reading
  takes the value of the first readable bytes in network order and consumes exactly them. Prepended
  into the space in front of a message, an integer is read back with its value and the message is left as
  it was.
\<close>

theorem integers_in_network_order:
  assumes "buf_ok b" and "\<not> no_room b 4" and "4 \<le> unat (prependableBytes b)"
  shows "(\<exists>b1 bs y b2. appendInt32 x b = Inr b1 \<and> content b1 = content b @ bs \<and> length bs = 4 \<and> net_value bs = uint x
      \<and> readInt32 b1 = Inr (y, b2) \<and> content b2 = drop 4 (content b1) \<and> uint y = net_value (take 4 (content b1)))
    \<and> (\<exists>b1 bs y b2. appendInt16 x' b = Inr b1 \<and> content b1 = content b @ bs \<and> length bs = 2 \<and> net_value bs = uint x'
      \<and> readInt16 b1 = Inr (y, b2) \<and> content b2 = drop 2 (content b1) \<and> uint y = net_value (take 2 (content b1)))
    \<and> (\<exists>b1 b2. appendInt8 x'' b = Inr b1 \<and> content b1 = content b @ [x'']
      \<and> readInt8 b1 = Inr (hd (content b1), b2) \<and> content b2 = tl (content b1))
    \<and> (\<exists>b1 b2. prependInt32 x b = Inr b1 \<and> readInt32 b1 = Inr (x, b2) \<and> content b2 = content b)
    \<and> (\<exists>b1 b2. prependInt16 x' b = Inr b1 \<and> readInt16 b1 = Inr (x', b2) \<and> content b2 = content b)
    \<and> (\<exists>b1 b2. prependInt8 x'' b = Inr b1 \<and> readInt8 b1 = Inr (x'', b2) \<and> content b2 = content b)"
proof (intro conjI)
  have room: "\<not> no_room b 2" "\<not> no_room b 1"
    using assms(2) no_room_mono [of b 2 4] no_room_mono [of b 1 4] by auto
  show "\<exists>b1 bs y b2. appendInt32 x b = Inr b1 \<and> content b1 = content b @ bs \<and> length bs = 4 \<and> net_value bs = uint x
      \<and> readInt32 b1 = Inr (y, b2) \<and> content b2 = drop 4 (content b1) \<and> uint y = net_value (take 4 (content b1))"
    using int32_network_order [OF assms(1,2), of x] by blast
  show "\<exists>b1 bs y b2. appendInt16 x' b = Inr b1 \<and> content b1 = content b @ bs \<and> length bs = 2 \<and> net_value bs = uint x'
      \<and> readInt16 b1 = Inr (y, b2) \<and> content b2 = drop 2 (content b1) \<and> uint y = net_value (take 2 (content b1))"
    using int16_network_order [OF assms(1) room(1), of x'] by blast
  show "\<exists>b1 b2. appendInt8 x'' b = Inr b1 \<and> content b1 = content b @ [x'']
      \<and> readInt8 b1 = Inr (hd (content b1), b2) \<and> content b2 = tl (content b1)"
    using int8_order [OF assms(1) room(2), of x''] by blast
  show "\<exists>b1 b2. prependInt32 x b = Inr b1 \<and> readInt32 b1 = Inr (x, b2) \<and> content b2 = content b"
    using prependInt32_roundtrip [OF assms(1), of x] assms(3) by auto
  show "\<exists>b1 b2. prependInt16 x' b = Inr b1 \<and> readInt16 b1 = Inr (x', b2) \<and> content b2 = content b"
    using prependInt16_roundtrip [OF assms(1), of x'] assms(3) by auto
  show "\<exists>b1 b2. prependInt8 x'' b = Inr b1 \<and> readInt8 b1 = Inr (x'', b2) \<and> content b2 = content b"
    using prependInt8_roundtrip [OF assms(1), of x''] assms(3) by auto
qed

theorem integers_in_network_order_witness:
  "(\<exists>b1 bs. appendInt32 258 sample_buffer = Inr b1 \<and> content b1 = [65, 66] @ bs \<and> net_value bs = 258)
   \<and> (\<exists>b1 b2. prependInt16 7 sample_buffer = Inr b1 \<and> readInt16 b1 = Inr (7, b2) \<and> content b2 = [65, 66])"
proof -
  have "4 \<le> unat (prependableBytes sample_buffer)" by (simp add: sample_buffer_def prependableBytes_def)
  from integers_in_network_order [OF sample_ok(1) sample_room this, of 258 7 0] show ?thesis
    using sample_ok(2) by auto
qed

text \<open>
  C26: \<open>findCRLF\<close> returns \<open>NULL\<close> exactly when the readable bytes hold no CR LF, and otherwise the
  position of the first one; retrieving up to that position removes exactly the bytes of the line
  before it.
\<close>

theorem findCRLF_correct:
  assumes "buf_ok b"
  shows "case findCRLF b of
      None \<Rightarrow> \<forall>i. take 2 (drop i (content b)) \<noteq> kCRLF
    | Some p \<Rightarrow> \<exists>i b'. unat p = unat (peek b) + i \<and> take 2 (drop i (content b)) = kCRLF
        \<and> (\<forall>j<i. take 2 (drop j (content b)) \<noteq> kCRLF)
        \<and> retrieveUntil p b = Inr b' \<and> buf_ok b' \<and> content b' = drop i (content b)"
proof -
  define k where "k = std_search kCRLF (content b)"
  have two: "length kCRLF = 2" by (simp add: kCRLF_def)
  have before: "\<forall>j<k. take 2 (drop j (content b)) \<noteq> kCRLF"
    using std_search_first [of _ kCRLF "content b"] two by (auto simp: k_def)
  show ?thesis
  proof (cases "k = length (content b)")
    case True
    moreover have "take 2 (drop i (content b)) \<noteq> kCRLF" if "length (content b) \<le> i" for i
      using that by (simp add: kCRLF_def)
    ultimately have "\<forall>i. take 2 (drop i (content b)) \<noteq> kCRLF"
      using before by (metis not_less)
    moreover from True have "findCRLF b = None"
      using assms by (simp add: findCRLF_cases k_def)
    ultimately show ?thesis by simp
  next
    case False
    then have k: "k < length (content b)" "k \<le> length (content b)"
      using std_search_le [of kCRLF "content b"] by (simp_all add: k_def)
    define p where "p = peek b + of_nat k"
    have u: "unat p = unat (peek b) + k"
      using search_in_content(1) [OF assms k(2)] by (simp add: p_def)
    have n: "unat (of_nat k :: size_t) = k"
      using k(1) content_le_max [OF assms] by (intro unat_of_nat_size_t) simp
    have "peek b \<le> p" "p \<le> beginWrite b" "p - peek b = of_nat k"
      using u k length_content [OF assms] assms
      by (auto simp: word_le_nat_alt p_def peek_def beginWrite_def buf_ok_nat)
    then obtain b' where "retrieveUntil p b = Inr b'" "buf_ok b'" "content b' = drop k (content b)"
      using retrieve_ok [OF assms, of "of_nat k"] k n by (auto simp: retrieveUntil_def)
    moreover have "findCRLF b = Some p"
      using assms False by (simp add: findCRLF_cases k_def p_def Let_def)
    moreover have "take 2 (drop k (content b)) = kCRLF"
      using std_search_found [of kCRLF "content b"] k two by (simp add: k_def)
    ultimately show ?thesis using u before by auto
  qed
qed

theorem findCRLF_correct_witness:
  "\<exists>b p b'. buf_ok b \<and> content b = [65, 13, 10, 66] \<and> findCRLF b = Some p
     \<and> retrieveUntil p b = Inr b' \<and> content b' = [13, 10, 66]"
proof -
  define b where "b = \<lparr>buffer_vec = replicate 8 0 @ [65, 13, 10, 66], readerIndex = 8, writerIndex = 12\<rparr>"
  have b: "buf_ok b" "content b = [65, 13, 10, 66]"
    by (simp_all add: b_def buf_ok_nat max_size_def content_def range_bytes_def)
  have "findCRLF b = Some 9"
    using b(1) by (simp add: findCRLF_cases b(2) kCRLF_def) (simp add: b_def peek_def)
  with findCRLF_correct [OF b(1)] obtain i b' where
    i: "9 = unat (peek b) + i" and r: "retrieveUntil 9 b = Inr b'" "content b' = drop i (content b)"
    by auto
  from i have "i = 1" by (simp add: b_def peek_def)
  with b r \<open>findCRLF b = Some 9\<close> show ?thesis by auto
qed

text \<open>
  C29: \<open>ensureWritableBytes\<close> does not guard its arithmetic against wrap-around. A length close to
  \<open>SIZE_MAX\<close> (a negative \<open>int\<close> converted to \<open>size_t\<close>, say) makes \<open>writerIndex_ + len\<close> wrap: the
  vector is truncated below the writer index, every assertion passes and the call returns, with the
  invariant of the class broken.
\<close>

theorem ensureWritableBytes_wraps:
  assumes "buf_ok b" and "18446744073709551616 \<le> unat (writerIndex b) + unat len"
    and "unat len < 18446744073709551608"
  shows "\<exists>b'. ensureWritableBytes len b = Inr b'
    \<and> length (buffer_vec b') = unat (writerIndex b) + unat len - 18446744073709551616
    \<and> \<not> buf_ok b'"
proof -
  let ?n = "unat (writerIndex b) + unat len - 18446744073709551616"
  have n: "unat (writerIndex b + len) = ?n"
  proof -
    have "unat (writerIndex b + len)
        = (unat (writerIndex b) + unat len) mod 18446744073709551616"
      by (simp add: unat_word_ariths)
    also have "\<dots> = ?n mod 18446744073709551616"
      using assms(2) by (rule le_mod_geq)
    also have "\<dots> = ?n"
      using unat_size_t_lt [of "writerIndex b"] unat_size_t_lt [of len] by (intro mod_less) linarith
    finally show ?thesis .
  qed
  have small: "?n < unat (writerIndex b)" "?n \<le> max_size"
    using unat_size_t_lt [of len] assms(1,2) unfolding buf_ok_nat by linarith+
  have w: "writableBytes b < len"
    using assms by (auto simp: word_less_nat_alt unat_writableBytes buf_ok_nat max_size_def)
  have "unat (writableBytes b + prependableBytes b) \<le> max_size"
    using assms(1) by (subst unat_plus_size_t)
      (auto simp: unat_writableBytes prependableBytes_def buf_ok_nat max_size_def)
  moreover have "unat (len + kCheapPrepend) = unat len + 8"
    using assms(3) by (subst unat_plus_size_t) auto
  moreover have "max_size < unat len + 8"
    using assms by (auto simp: buf_ok_nat max_size_def)
  ultimately have guard: "writableBytes b + prependableBytes b < len + kCheapPrepend"
    by (simp add: word_less_nat_alt)
  define b' where "b' = b\<lparr>buffer_vec := take ?n (buffer_vec b)\<rparr>"
  have len': "length (buffer_vec b') = ?n"
    using small assms(1) by (auto simp: b'_def buf_ok_nat)
  have "vec_size b' = writerIndex b + len"
    unfolding vec_size_def len' n [symmetric] by simp
  then have "writableBytes b' = len"
    by (simp add: writableBytes_def b'_def)
  moreover have "makeSpace len b = Inr b'"
    using guard small n assms(1)
    by (auto simp: makeSpace_def vec_resize_def b'_def buf_ok_nat)
  ultimately have "ensureWritableBytes len b = Inr b'"
    using w by (simp add: ensureWritableBytes_def)
  moreover have "\<not> buf_ok b'"
    using len' small by (auto simp: buf_ok_nat b'_def)
  ultimately show ?thesis using len' by blast
qed

theorem ensureWritableBytes_wraps_witness:
  "\<exists>b'. ensureWritableBytes (- 9) sample_buffer = Inr b' \<and> length (buffer_vec b') = 1 \<and> \<not> buf_ok b'"
  using ensureWritableBytes_wraps [OF sample_ok(1), of "- 9"]
  by (simp add: sample_buffer_def)

end
