(* ===== verification/EventLoopThread.thy ===== *)
theory EventLoopThread
  imports EventLoop
begin

text \<open>
  A thread with an event loop, \<open>src/src/base/EventLoopThread.cpp\<close>: \<open>startLoop\<close> starts the thread
  and waits on a condition variable until the thread function has built its loop; the destructor
  stops the loop and joins the thread.

  The object's fields, the mutex and the condition variable are a record, the two threads are
  program counters over the statements of \<open>startLoop\<close> followed by \<open>~EventLoopThread\<close>, and of
  \<open>threadFunc\<close>, and the step relation interleaves them: one rule per access to shared state. A
  waiting thread may also wake spuriously. \<open>run()\<close> of a stopped \<open>io_service\<close> returns; the model
  lets it return at any time after \<open>quit()\<close>, also when \<open>quit()\<close> came before \<open>run()\<close>.
\<close>

section \<open>State and steps\<close>

datatype party = Starter | Worker

text \<open>The owner's thread: \<open>startLoop\<close>, then the destructor.\<close>

datatype starter_pc =
    S_Begin          \<comment> \<open>before \<open>thread_.reset(...)\<close>\<close>
  | S_Lock           \<comment> \<open>before the lock of \<open>mutex_\<close>\<close>
  | S_Check          \<comment> \<open>at \<open>while(!loop_)\<close>, mutex held\<close>
  | S_Waiting        \<comment> \<open>inside \<open>cv_.wait(lock)\<close>, mutex released\<close>
  | S_Return         \<comment> \<open>at \<open>return loop_\<close>, mutex held\<close>
  | S_Started        \<comment> \<open>after \<open>startLoop\<close>\<close>
  | S_Quit           \<comment> \<open>in the destructor, before \<open>loop_->quit()\<close>\<close>
  | S_Join           \<comment> \<open>at \<open>thread_->join()\<close>\<close>
  | S_Destroyed

datatype worker_pc =
    W_NotRunning
  | W_Lock           \<comment> \<open>before the lock of \<open>mutex_\<close>\<close>
  | W_New            \<comment> \<open>before \<open>loop_.reset(new EventLoop)\<close>, mutex held\<close>
  | W_Notify         \<comment> \<open>before \<open>cv_.notify_one()\<close>, mutex held\<close>
  | W_Unlock         \<comment> \<open>end of the block, mutex held\<close>
  | W_Callback       \<comment> \<open>before \<open>callback_(loop_)\<close>\<close>
  | W_Loop           \<comment> \<open>before \<open>loop_->loop()\<close>\<close>
  | W_Running        \<comment> \<open>inside \<open>run()\<close>\<close>
  | W_Exited

record loop_thread =
  elt_loop :: "loop_id option"
  elt_mutex :: "party option"
  elt_notified :: bool             \<comment> \<open>a notification for the waiting thread is pending\<close>
  elt_stopped :: bool              \<comment> \<open>\<open>quit()\<close> was called on the loop\<close>
  elt_callback :: bool             \<comment> \<open>\<open>callback_\<close> is not empty\<close>
  elt_called :: nat                \<comment> \<open>calls of \<open>callback_\<close> so far\<close>
  elt_starter :: starter_pc
  elt_worker :: worker_pc
  elt_returned :: "loop_id option option"   \<comment> \<open>what \<open>startLoop\<close> returned\<close>

definition new_EventLoopThread :: "bool \<Rightarrow> loop_thread" where
  "new_EventLoopThread cb =
     \<lparr>elt_loop = None, elt_mutex = None, elt_notified = False, elt_stopped = False,
      elt_callback = cb, elt_called = 0, elt_starter = S_Begin, elt_worker = W_NotRunning,
      elt_returned = None\<rparr>"

text \<open>The steps of \<open>startLoop\<close> and of the destructor.\<close>

inductive startLoop_step :: "loop_thread \<Rightarrow> loop_thread \<Rightarrow> bool" where
  s_spawn: "elt_starter s = S_Begin \<Longrightarrow>
    startLoop_step s (s\<lparr>elt_starter := S_Lock, elt_worker := W_Lock\<rparr>)"
| s_lock: "elt_starter s = S_Lock \<Longrightarrow> elt_mutex s = None \<Longrightarrow>
    startLoop_step s (s\<lparr>elt_starter := S_Check, elt_mutex := Some Starter\<rparr>)"
| s_wait: "elt_starter s = S_Check \<Longrightarrow> elt_loop s = None \<Longrightarrow>
    startLoop_step s (s\<lparr>elt_starter := S_Waiting, elt_mutex := None, elt_notified := False\<rparr>)"
| s_wake: "elt_starter s = S_Waiting \<Longrightarrow> elt_notified s \<Longrightarrow> elt_mutex s = None \<Longrightarrow>
    startLoop_step s (s\<lparr>elt_starter := S_Check, elt_mutex := Some Starter\<rparr>)"
| s_loop_set: "elt_starter s = S_Check \<Longrightarrow> elt_loop s \<noteq> None \<Longrightarrow>
    startLoop_step s (s\<lparr>elt_starter := S_Return\<rparr>)"
| s_return: "elt_starter s = S_Return \<Longrightarrow>
    startLoop_step s (s\<lparr>elt_starter := S_Started, elt_mutex := None, elt_returned := Some (elt_loop s)\<rparr>)"
| s_destroy: "elt_starter s = S_Started \<Longrightarrow>
    startLoop_step s (s\<lparr>elt_starter := (if elt_loop s \<noteq> None then S_Quit else S_Destroyed)\<rparr>)"
| s_quit: "elt_starter s = S_Quit \<Longrightarrow>
    startLoop_step s (s\<lparr>elt_starter := S_Join, elt_stopped := True\<rparr>)"
| s_join: "elt_starter s = S_Join \<Longrightarrow> elt_worker s = W_Exited \<Longrightarrow>
    startLoop_step s (s\<lparr>elt_starter := S_Destroyed\<rparr>)"

text \<open>A wake-up without notification, which the standard allows.\<close>

inductive spurious_wake :: "loop_thread \<Rightarrow> loop_thread \<Rightarrow> bool" where
  s_spurious: "elt_starter s = S_Waiting \<Longrightarrow> elt_mutex s = None \<Longrightarrow>
    spurious_wake s (s\<lparr>elt_starter := S_Check, elt_mutex := Some Starter\<rparr>)"

text \<open>The steps of \<open>threadFunc\<close>; \<open>l\<close> is the address of the new loop.\<close>

inductive threadFunc_step :: "loop_id \<Rightarrow> loop_thread \<Rightarrow> loop_thread \<Rightarrow> bool" for l where
  w_lock: "elt_worker s = W_Lock \<Longrightarrow> elt_mutex s = None \<Longrightarrow>
    threadFunc_step l s (s\<lparr>elt_worker := W_New, elt_mutex := Some Worker\<rparr>)"
| w_new: "elt_worker s = W_New \<Longrightarrow>
    threadFunc_step l s (s\<lparr>elt_worker := W_Notify, elt_loop := Some l\<rparr>)"
| w_notify: "elt_worker s = W_Notify \<Longrightarrow>
    threadFunc_step l s (s\<lparr>elt_worker := W_Unlock,
      elt_notified := (elt_notified s \<or> elt_starter s = S_Waiting)\<rparr>)"
| w_unlock: "elt_worker s = W_Unlock \<Longrightarrow>
    threadFunc_step l s (s\<lparr>elt_worker := W_Callback, elt_mutex := None\<rparr>)"
| w_callback: "elt_worker s = W_Callback \<Longrightarrow>
    threadFunc_step l s (s\<lparr>elt_worker := W_Loop,
      elt_called := elt_called s + (if elt_callback s then 1 else 0)\<rparr>)"
| w_loop: "elt_worker s = W_Loop \<Longrightarrow>
    threadFunc_step l s (s\<lparr>elt_worker := W_Running\<rparr>)"
| w_exit: "elt_worker s = W_Running \<Longrightarrow> elt_stopped s \<Longrightarrow>
    threadFunc_step l s (s\<lparr>elt_worker := W_Exited\<rparr>)"

definition elt_step :: "loop_id \<Rightarrow> loop_thread \<Rightarrow> loop_thread \<Rightarrow> bool" where
  "elt_step l s t \<longleftrightarrow> startLoop_step s t \<or> threadFunc_step l s t \<or> spurious_wake s t"

abbreviation elt_reachable :: "loop_id \<Rightarrow> bool \<Rightarrow> loop_thread \<Rightarrow> bool" where
  "elt_reachable l cb \<equiv> reach (\<lambda>s. s = new_EventLoopThread cb) (elt_step l)"

section \<open>Invariant\<close>

text \<open>
  The mutex is held exactly by the party whose counter is in its critical section, the loop pointer
  is set exactly after \<open>W_New\<close>, and a starter that waits while the loop is set has a notification
  coming: either pending already, or the worker has not yet reached \<open>notify_one\<close>.
\<close>

definition elt_inv :: "loop_id \<Rightarrow> bool \<Rightarrow> loop_thread \<Rightarrow> bool" where
  "elt_inv l cb s \<longleftrightarrow>
     (elt_mutex s = Some Starter \<longleftrightarrow> elt_starter s \<in> {S_Check, S_Return})
   \<and> (elt_mutex s = Some Worker \<longleftrightarrow> elt_worker s \<in> {W_New, W_Notify, W_Unlock})
   \<and> (elt_loop s = (if elt_worker s \<in> {W_NotRunning, W_Lock, W_New} then None else Some l))
   \<and> (elt_worker s = W_NotRunning \<longleftrightarrow> elt_starter s = S_Begin)
   \<and> (elt_starter s = S_Waiting \<and> elt_loop s \<noteq> None \<longrightarrow> elt_notified s \<or> elt_worker s = W_Notify)
   \<and> (elt_notified s \<longrightarrow> elt_loop s \<noteq> None)
   \<and> (elt_starter s \<in> {S_Return, S_Started, S_Quit, S_Join, S_Destroyed} \<longrightarrow> elt_loop s = Some l)
   \<and> (elt_returned s = (if elt_starter s \<in> {S_Started, S_Quit, S_Join, S_Destroyed}
                        then Some (Some l) else None))
   \<and> (elt_stopped s \<longleftrightarrow> elt_starter s \<in> {S_Join, S_Destroyed})
   \<and> (elt_worker s = W_Exited \<longrightarrow> elt_stopped s)
   \<and> (elt_starter s = S_Destroyed \<longrightarrow> elt_worker s = W_Exited)
   \<and> elt_callback s = cb
   \<and> elt_called s = (if cb \<and> elt_worker s \<in> {W_Loop, W_Running, W_Exited} then 1 else 0)"

lemma elt_invD:
  assumes "elt_inv l cb s"
  shows mutex_starter: "elt_mutex s = Some Starter \<longleftrightarrow> elt_starter s \<in> {S_Check, S_Return}"
    and mutex_worker: "elt_mutex s = Some Worker \<longleftrightarrow> elt_worker s \<in> {W_New, W_Notify, W_Unlock}"
    and loop_set: "elt_loop s = (if elt_worker s \<in> {W_NotRunning, W_Lock, W_New} then None else Some l)"
    and not_running: "elt_worker s = W_NotRunning \<longleftrightarrow> elt_starter s = S_Begin"
    and wakeup: "elt_starter s = S_Waiting \<and> elt_loop s \<noteq> None \<longrightarrow> elt_notified s \<or> elt_worker s = W_Notify"
    and notified: "elt_notified s \<longrightarrow> elt_loop s \<noteq> None"
    and returned_loop: "elt_starter s \<in> {S_Return, S_Started, S_Quit, S_Join, S_Destroyed} \<longrightarrow> elt_loop s = Some l"
    and returned: "elt_returned s = (if elt_starter s \<in> {S_Started, S_Quit, S_Join, S_Destroyed}
      then Some (Some l) else None)"
    and stopped: "elt_stopped s \<longleftrightarrow> elt_starter s \<in> {S_Join, S_Destroyed}"
    and exited: "elt_worker s = W_Exited \<longrightarrow> elt_stopped s"
    and joined: "elt_starter s = S_Destroyed \<longrightarrow> elt_worker s = W_Exited"
    and called: "elt_called s = (if cb \<and> elt_worker s \<in> {W_Loop, W_Running, W_Exited} then 1 else 0)"
  using assms unfolding elt_inv_def by - (elim conjE, assumption)+

lemma startLoop_inv: "elt_inv l cb s \<Longrightarrow> startLoop_step s t \<Longrightarrow> elt_inv l cb t"
  by (erule startLoop_step.cases; cases "elt_worker s"; auto simp: elt_inv_def)

lemma threadFunc_inv: "elt_inv l cb s \<Longrightarrow> threadFunc_step l s t \<Longrightarrow> elt_inv l cb t"
  by (erule threadFunc_step.cases; cases "elt_starter s"; auto simp: elt_inv_def)

lemma spurious_inv: "elt_inv l cb s \<Longrightarrow> spurious_wake s t \<Longrightarrow> elt_inv l cb t"
  by (erule spurious_wake.cases; cases "elt_worker s"; auto simp: elt_inv_def)

interpretation elt: inductive_invariant
  "\<lambda>s. s = new_EventLoopThread cb" "elt_step l" "elt_inv l cb" for cb l
proof unfold_locales
  show "\<And>s. s = new_EventLoopThread cb \<Longrightarrow> elt_inv l cb s"
    by (simp add: new_EventLoopThread_def elt_inv_def)
  show "\<And>s t. elt_inv l cb s \<Longrightarrow> elt_step l s t \<Longrightarrow> elt_inv l cb t"
    unfolding elt_step_def using startLoop_inv threadFunc_inv spurious_inv by blast
qed

section \<open>Progress\<close>

text \<open>An upper bound of the statements both threads have left, spurious wake-ups apart.\<close>

fun starter_left :: "bool \<Rightarrow> starter_pc \<Rightarrow> nat" where
  "starter_left ready S_Begin = 9"
| "starter_left ready S_Lock = 8"
| "starter_left ready S_Check = (if ready then 5 else 7)"
| "starter_left ready S_Waiting = 6"
| "starter_left ready S_Return = 4"
| "starter_left ready S_Started = 3"
| "starter_left ready S_Quit = 2"
| "starter_left ready S_Join = 1"
| "starter_left ready S_Destroyed = 0"

fun worker_left :: "worker_pc \<Rightarrow> nat" where
  "worker_left W_NotRunning = 7"
| "worker_left W_Lock = 7"
| "worker_left W_New = 6"
| "worker_left W_Notify = 5"
| "worker_left W_Unlock = 4"
| "worker_left W_Callback = 3"
| "worker_left W_Loop = 2"
| "worker_left W_Running = 1"
| "worker_left W_Exited = 0"

definition elt_left :: "loop_thread \<Rightarrow> nat" where
  "elt_left s = starter_left (elt_loop s \<noteq> None) (elt_starter s) + worker_left (elt_worker s)"

lemma startLoop_decreases:
  assumes "elt_inv l cb s" and "startLoop_step s t"
  shows "elt_left t < elt_left s"
  using assms(2) notified [OF assms(1)] returned_loop [OF assms(1)] not_running [OF assms(1)]
  by cases (auto simp: elt_left_def)

lemma threadFunc_decreases:
  assumes "elt_inv l cb s" and "threadFunc_step l s t"
  shows "elt_left t < elt_left s"
  using assms(2) mutex_starter [OF assms(1)] mutex_worker [OF assms(1)]
  by cases (cases "elt_starter s"; auto simp: elt_left_def)+

lemma worker_enabled:
  assumes "elt_inv l cb s" and "elt_worker s \<notin> {W_NotRunning, W_Exited}"
    and "elt_worker s = W_Lock \<longrightarrow> elt_mutex s = None"
    and "elt_worker s = W_Running \<longrightarrow> elt_stopped s"
  shows "\<exists>t. threadFunc_step l s t"
  using assms by (cases "elt_worker s") (auto intro: threadFunc_step.intros)

lemma mutex_free_or_starter:
  "elt_inv l cb s \<Longrightarrow> elt_mutex s \<noteq> Some Worker \<Longrightarrow> elt_starter s \<notin> {S_Check, S_Return} \<Longrightarrow>
     elt_mutex s = None"
  using mutex_starter [of l cb s] by (metis not_None_eq party.exhaust)

lemma step_enabled:
  assumes inv: "elt_inv l cb s" and "elt_starter s \<noteq> S_Destroyed"
  shows "\<exists>t. startLoop_step s t \<or> threadFunc_step l s t"
proof (cases "elt_mutex s = Some Worker")
  case True
  then have "elt_worker s \<in> {W_New, W_Notify, W_Unlock}" using inv by (simp add: elt_inv_def)
  then have "\<exists>t. threadFunc_step l s t" by (auto intro: threadFunc_step.intros)
  then show ?thesis by blast
next
  case False
  note free = mutex_free_or_starter [OF inv False]
  show ?thesis
  proof (cases "elt_starter s")
    case S_Check
    then show ?thesis by (cases "elt_loop s") (auto intro: startLoop_step.intros)
  next
    case S_Waiting
    show ?thesis
    proof (cases "elt_notified s")
      case True
      with S_Waiting free show ?thesis by (auto intro: startLoop_step.intros)
    next
      case False
      have "elt_worker s \<noteq> W_Running" and "elt_worker s \<noteq> W_Exited"
        using wakeup [OF inv] loop_set [OF inv] S_Waiting False by auto
      then have "\<exists>t. threadFunc_step l s t"
        using not_running [OF inv] S_Waiting free by (intro worker_enabled [OF inv]) auto
      then show ?thesis by blast
    qed
  next
    case S_Join
    then have st: "elt_stopped s" "elt_worker s \<noteq> W_NotRunning"
      using stopped [OF inv] not_running [OF inv] by auto
    show ?thesis
    proof (cases "elt_worker s = W_Exited")
      case True
      with S_Join show ?thesis by (auto intro: startLoop_step.intros)
    next
      case False
      with worker_enabled [OF inv] st S_Join free show ?thesis by auto
    qed
  qed (use free assms(2) in \<open>auto intro: startLoop_step.intros\<close>)
qed

section \<open>Properties\<close>

text \<open>A run up to the return of \<open>startLoop\<close>, with the starter waiting before the worker notifies.\<close>

definition started_thread :: loop_thread where
  "started_thread =
     \<lparr>elt_loop = Some 4, elt_mutex = None, elt_notified = True, elt_stopped = False,
      elt_callback = True, elt_called = 0, elt_starter = S_Started, elt_worker = W_Callback,
      elt_returned = Some (Some 4)\<rparr>"

lemma started_thread_reachable: "elt_reachable 4 True started_thread"
proof -
  note w = threadFunc_step.intros and s = startLoop_step.intros
  let ?s0 = "new_EventLoopThread True"
  let ?s1 = "?s0\<lparr>elt_starter := S_Lock, elt_worker := W_Lock\<rparr>"
  let ?s2 = "?s1\<lparr>elt_starter := S_Check, elt_mutex := Some Starter\<rparr>"
  let ?s3 = "?s2\<lparr>elt_starter := S_Waiting, elt_mutex := None, elt_notified := False\<rparr>"
  let ?s4 = "?s3\<lparr>elt_worker := W_New, elt_mutex := Some Worker\<rparr>"
  let ?s5 = "?s4\<lparr>elt_worker := W_Notify, elt_loop := Some 4\<rparr>"
  let ?s6 = "?s5\<lparr>elt_worker := W_Unlock, elt_notified := (elt_notified ?s5 \<or> elt_starter ?s5 = S_Waiting)\<rparr>"
  let ?s7 = "?s6\<lparr>elt_worker := W_Callback, elt_mutex := None\<rparr>"
  let ?s8 = "?s7\<lparr>elt_starter := S_Check, elt_mutex := Some Starter\<rparr>"
  let ?s9 = "?s8\<lparr>elt_starter := S_Return\<rparr>"
  let ?s10 = "?s9\<lparr>elt_starter := S_Started, elt_mutex := None, elt_returned := Some (elt_loop ?s9)\<rparr>"
  let ?R = "elt_reachable 4 True"
  note d = elt_step_def new_EventLoopThread_def
  have "?R ?s0" by (rule reach_init) simp
  then have "?R ?s1" by (rule reach_step) (use s(1) [of ?s0] in \<open>simp add: d\<close>)
  then have "?R ?s2" by (rule reach_step) (use s(2) [of ?s1] in \<open>simp add: d\<close>)
  then have "?R ?s3" by (rule reach_step) (use s(3) [of ?s2] in \<open>simp add: d\<close>)
  then have "?R ?s4" by (rule reach_step) (use w(1) [of ?s3 4] in \<open>simp add: d\<close>)
  then have "?R ?s5" by (rule reach_step) (use w(2) [of ?s4 4] in \<open>simp add: d\<close>)
  then have "?R ?s6" by (rule reach_step) (use w(3) [of ?s5 4] in \<open>simp add: d\<close>)
  then have "?R ?s7" by (rule reach_step) (use w(4) [of ?s6 4] in \<open>simp add: d\<close>)
  then have "?R ?s8" by (rule reach_step) (use s(4) [of ?s7] in \<open>simp add: d\<close>)
  then have "?R ?s9" by (rule reach_step) (use s(5) [of ?s8] in \<open>simp add: d\<close>)
  then have "?R ?s10" by (rule reach_step) (use s(6) [of ?s9] in \<open>simp add: d\<close>)
  then show ?thesis by (simp add: started_thread_def new_EventLoopThread_def)
qed

text \<open>
  C6: in every interleaving of \<open>startLoop\<close> and \<open>threadFunc\<close>, spurious wake-ups included, the two
  threads are never in their critical sections together; \<open>startLoop\<close> returns the loop the thread
  built and never a null pointer; the thread enters that loop only after calling its callback, which is
  called once if it was given and not at all otherwise; and when the destructor is done the thread
  has left its loop.
\<close>

theorem startLoop_returns_the_loop:
  assumes "elt_reachable l cb s"
  shows "\<not> (elt_starter s \<in> {S_Check, S_Return} \<and> elt_worker s \<in> {W_New, W_Notify, W_Unlock})
    \<and> (case elt_returned s of None \<Rightarrow> True | Some r \<Rightarrow> r = Some l \<and> elt_loop s = Some l)
    \<and> (if elt_worker s \<in> {W_Loop, W_Running, W_Exited} then elt_called s = (if cb then 1 else 0)
       else elt_called s = 0)
    \<and> (if elt_starter s = S_Destroyed then elt_worker s = W_Exited else True)"
proof -
  note inv = elt.reachable_inv [OF assms]
  have "\<not> (elt_starter s \<in> {S_Check, S_Return} \<and> elt_worker s \<in> {W_New, W_Notify, W_Unlock})"
    using mutex_starter [OF inv] mutex_worker [OF inv] by force
  moreover have "case elt_returned s of None \<Rightarrow> True | Some r \<Rightarrow> r = Some l \<and> elt_loop s = Some l"
    using returned [OF inv] returned_loop [OF inv] by simp
  ultimately show ?thesis using called [OF inv] joined [OF inv] by simp
qed

theorem startLoop_returns_the_loop_witness:
  "elt_returned started_thread = Some (Some 4) \<and> elt_loop started_thread = Some 4
   \<and> elt_called started_thread = 0"
  using startLoop_returns_the_loop [OF started_thread_reachable] by (simp add: started_thread_def)

text \<open>
  C7: the wake-up is never lost and neither \<open>startLoop\<close> nor the destructor blocks for ever. In
  every reachable state before the end of the destructor one of the two threads can take a step
  that is no spurious wake-up, and every such step decreases \<open>elt_left\<close>, so that after at most
  \<open>elt_left s\<close> of them the thread is joined.
\<close>

theorem startLoop_and_destructor_terminate:
  assumes "elt_reachable l cb s"
  shows "(elt_starter s = S_Destroyed \<or> (\<exists>t. startLoop_step s t \<or> threadFunc_step l s t))
    \<and> (\<forall>t. startLoop_step s t \<or> threadFunc_step l s t \<longrightarrow> elt_left t < elt_left s)"
proof -
  note inv = elt.reachable_inv [OF assms]
  show ?thesis using step_enabled [OF inv] startLoop_decreases [OF inv] threadFunc_decreases [OF inv]
    by blast
qed

theorem startLoop_and_destructor_terminate_witness:
  "\<exists>t. (startLoop_step started_thread t \<or> threadFunc_step 4 started_thread t) \<and> elt_left t < 6"
proof -
  have "elt_starter started_thread \<noteq> S_Destroyed" "elt_left started_thread = 6"
    by (simp_all add: started_thread_def elt_left_def)
  with startLoop_and_destructor_terminate [OF started_thread_reachable] show ?thesis by metis
qed

end
