(* ===== verification/EventLoopThreadPool.thy ===== *)
theory EventLoopThreadPool
  imports EventLoopThread
begin

text \<open>
  The pool of event loop threads, \<open>src/src/base/EventLoopThreadPool.h\<close> and
  \<open>EventLoopThreadPool.cpp\<close>. \<open>start\<close> starts the threads one after the other and keeps their loops;
  \<open>getNextLoop\<close> hands them out in turn, \<open>getLoopForHash\<close> by a hash code.

  Starting a thread is the whole run of \<open>startLoop\<close> and of \<open>threadFunc\<close> up to \<open>run()\<close>, whose
  interleavings are the subject of \<open>EventLoopThread\<close>: the new thread builds the loop \<open>l\<close>, calls
  the callback and enters the loop. The identity of the thread and the address of the loop are the
  choice of the operating system and the allocator: the argument \<open>spawn\<close> gives them for the \<open>i\<close>-th
  thread. A \<open>ThreadInitCallback\<close> is code of the user, an argument of the model.
\<close>

section \<open>State and operations\<close>

type_synonym 'a init_callback = "(loop_id \<Rightarrow> 'a loop_world_scheme \<Rightarrow> 'a loop_world_scheme) option"

record thread_pool =
  tp_baseLoop :: loop_id
  tp_name :: string
  tp_started :: bool
  tp_numThreads :: int
  tp_next :: int
  tp_threads :: "string list"      \<comment> \<open>the names of the \<open>EventLoopThread\<close> objects\<close>
  tp_loops :: "loop_id list"

definition new_EventLoopThreadPool :: "loop_id \<Rightarrow> string \<Rightarrow> thread_pool" where
  "new_EventLoopThreadPool baseLoop nameArg =
     \<lparr>tp_baseLoop = baseLoop, tp_name = nameArg, tp_started = False, tp_numThreads = 0,
      tp_next = 0, tp_threads = [], tp_loops = []\<rparr>"

definition tp_setThreadNum :: "int \<Rightarrow> thread_pool \<Rightarrow> thread_pool" where
  "tp_setThreadNum numThreads p = p\<lparr>tp_numThreads := numThreads\<rparr>"

text \<open>\<open>EventLoopThread::startLoop\<close> and the thread it starts, up to \<open>run()\<close>.\<close>

definition startLoop :: "tid \<Rightarrow> loop_id \<Rightarrow> 'a init_callback \<Rightarrow> 'a loop_world_scheme \<Rightarrow>
    'a loop_world_scheme result" where
  "startLoop t l cb w =
     (let w1 = new_EventLoop l (w\<lparr>this_thread := t\<rparr>);
          w2 = (case cb of None \<Rightarrow> w1 | Some f \<Rightarrow> f l w1)
      in bindR (el_loop l w2) (\<lambda>w3. Inr (w3\<lparr>this_thread := this_thread w\<rparr>)))"

text \<open>The \<open>for\<close> loop of \<open>start\<close> from index \<open>i\<close>, with \<open>n\<close> iterations to go.\<close>

fun start_threads :: "(nat \<Rightarrow> tid \<times> loop_id) \<Rightarrow> 'a init_callback \<Rightarrow> nat \<Rightarrow> nat \<Rightarrow>
    thread_pool \<times> 'a loop_world_scheme \<Rightarrow> (thread_pool \<times> 'a loop_world_scheme) result" where
  "start_threads spawn cb i 0 s = Inr s"
| "start_threads spawn cb i (Suc n) (p, w) =
     (let buf = snprintf 255 (tp_name p @ show_int (int i)); (t, l) = spawn i in
      bindR (startLoop t l cb w) (\<lambda>w1.
        start_threads spawn cb (Suc i) n
          (p\<lparr>tp_threads := tp_threads p @ [buf], tp_loops := tp_loops p @ [l]\<rparr>, w1)))"

definition tp_start :: "(nat \<Rightarrow> tid \<times> loop_id) \<Rightarrow> 'a init_callback \<Rightarrow> thread_pool \<Rightarrow>
    'a loop_world_scheme \<Rightarrow> (thread_pool \<times> 'a loop_world_scheme) result" where
  "tp_start spawn cb p w =
     assertR (\<not> tp_started p) (
       bindR (assertInLoopThread (tp_baseLoop p) w) (\<lambda>_.
         bindR (start_threads spawn cb 0 (nat (tp_numThreads p)) (p\<lparr>tp_started := True\<rparr>, w)) (\<lambda>(p1, w1).
           if tp_numThreads p = 0 then
             (case cb of None \<Rightarrow> Inr (p1, w1) | Some f \<Rightarrow> Inr (p1, f (tp_baseLoop p) w1))
           else Inr (p1, w1))))"

definition getNextLoop :: "'a loop_world_scheme \<Rightarrow> thread_pool \<Rightarrow> (loop_id \<times> thread_pool) result" where
  "getNextLoop w p =
     bindR (assertInLoopThread (tp_baseLoop p) w) (\<lambda>_.
       assertR (tp_started p) (
         if tp_loops p \<noteq> [] then
           if tp_next p < 0 \<or> length (tp_loops p) \<le> nat (tp_next p) then Inl OutOfBounds
           else bindR (incr_int (tp_next p)) (\<lambda>n.
             Inr (tp_loops p ! nat (tp_next p),
               p\<lparr>tp_next := (if length (tp_loops p) \<le> unat (word_of_int n :: size_t) then 0 else n)\<rparr>))
         else Inr (tp_baseLoop p, p)))"

definition getLoopForHash :: "size_t \<Rightarrow> 'a loop_world_scheme \<Rightarrow> thread_pool \<Rightarrow> loop_id result" where
  "getLoopForHash hashCode w p =
     bindR (assertInLoopThread (tp_baseLoop p) w) (\<lambda>_.
       Inr (if tp_loops p \<noteq> [] then tp_loops p ! (unat hashCode mod length (tp_loops p))
            else tp_baseLoop p))"

definition getAllLoops :: "'a loop_world_scheme \<Rightarrow> thread_pool \<Rightarrow> loop_id list result" where
  "getAllLoops w p =
     bindR (assertInLoopThread (tp_baseLoop p) w) (\<lambda>_.
       assertR (tp_started p) (Inr (if tp_loops p = [] then [tp_baseLoop p] else tp_loops p)))"

text \<open>\<open>k\<close> calls of \<open>getNextLoop\<close> and the loops they return.\<close>

fun next_loops :: "nat \<Rightarrow> 'a loop_world_scheme \<Rightarrow> thread_pool \<Rightarrow> (loop_id list \<times> thread_pool) result" where
  "next_loops 0 w p = Inr ([], p)"
| "next_loops (Suc k) w p =
     bindR (getNextLoop w p) (\<lambda>(l, p1). bindR (next_loops k w p1) (\<lambda>(ls, p2). Inr (l # ls, p2)))"

section \<open>Lemmas\<close>

text \<open>The index of the next loop stays inside the vector, which fits a C \<open>int\<close>.\<close>

definition tp_ok :: "thread_pool \<Rightarrow> bool" where
  "tp_ok p \<longleftrightarrow> 0 \<le> tp_next p \<and> int (length (tp_loops p)) \<le> int_max
     \<and> (if tp_loops p = [] then tp_next p = 0 else tp_next p < int (length (tp_loops p)))"

definition in_base_thread :: "'a loop_world_scheme \<Rightarrow> thread_pool \<Rightarrow> bool" where
  "in_base_thread w p \<longleftrightarrow> assertInLoopThread (tp_baseLoop p) w = Inr ()"

lemma unat_of_small_int: "0 \<le> n \<Longrightarrow> n \<le> int_max + 1 \<Longrightarrow> unat (word_of_int n :: size_t) = nat n"
  by (simp add: int_max_def unsigned_of_int nat_eq_iff2 take_bit_int_eq_self)

lemma getNextLoop_eq:
  assumes "tp_ok p" and "tp_started p" and "in_base_thread w p"
  shows "getNextLoop w p =
    Inr (if tp_loops p = [] then (tp_baseLoop p, p)
         else (tp_loops p ! nat (tp_next p),
               p\<lparr>tp_next := (tp_next p + 1) mod int (length (tp_loops p))\<rparr>))"
proof (cases "tp_loops p = []")
  case False
  define m where "m = tp_next p + 1"
  have m: "0 \<le> m" "m \<le> int (length (tp_loops p))" "tp_next p < int_max"
    "\<not> length (tp_loops p) \<le> nat (tp_next p)"
    using assms(1) False by (auto simp: tp_ok_def m_def)
  then have u: "unat (word_of_int m :: size_t) = nat m"
    using assms(1) by (intro unat_of_small_int) (auto simp: tp_ok_def)
  have "m mod int (length (tp_loops p)) = (if length (tp_loops p) \<le> nat m then 0 else m)"
    using m by (auto simp: le_nat_iff not_le)
  then show ?thesis
    using assms False m u
    by (simp add: getNextLoop_def in_base_thread_def incr_int_def tp_ok_def flip: m_def)
qed (use assms in \<open>simp add: getNextLoop_def in_base_thread_def\<close>)

lemma getNextLoop_keeps:
  assumes "tp_ok p" and "tp_started p" and "in_base_thread w p" and "getNextLoop w p = Inr (l, p')"
  shows "tp_ok p' \<and> tp_started p' \<and> in_base_thread w p' \<and> tp_loops p' = tp_loops p
    \<and> tp_baseLoop p' = tp_baseLoop p"
  using assms by (auto simp: getNextLoop_eq tp_ok_def in_base_thread_def split: if_splits)

lemma next_loops_eq:
  assumes "tp_ok p" and "tp_started p" and "in_base_thread w p" and "tp_loops p \<noteq> []"
  shows "next_loops k w p =
    Inr (map (\<lambda>i. tp_loops p ! ((nat (tp_next p) + i) mod length (tp_loops p))) [0..<k],
         p\<lparr>tp_next := (tp_next p + int k) mod int (length (tp_loops p))\<rparr>)"
  using assms
proof (induction k arbitrary: p)
  case 0
  then have "tp_next p mod int (length (tp_loops p)) = tp_next p" by (simp add: tp_ok_def)
  then show ?case by simp
next
  case (Suc k)
  let ?n = "length (tp_loops p)"
  let ?p1 = "p\<lparr>tp_next := (tp_next p + 1) mod int ?n\<rparr>"
  have g: "getNextLoop w p = Inr (tp_loops p ! nat (tp_next p), ?p1)"
    using Suc.prems by (simp add: getNextLoop_eq)
  have lt: "nat (tp_next p) < ?n" "0 \<le> tp_next p" using Suc.prems by (auto simp: tp_ok_def)
  have nx: "nat (tp_next ?p1) = Suc (nat (tp_next p)) mod ?n"
    using lt by (simp add: nat_mod_distrib Suc_nat_eq_nat_zadd1 add.commute)
  have "tp_loops p ! ((nat (tp_next ?p1) + i) mod ?n) = tp_loops p ! ((nat (tp_next p) + Suc i) mod ?n)" for i
    unfolding nx by (simp add: mod_add_left_eq)
  then have "map (\<lambda>i. tp_loops p ! ((nat (tp_next p) + i) mod ?n)) [0..<Suc k] =
      tp_loops p ! nat (tp_next p) #
        map (\<lambda>i. tp_loops p ! ((nat (tp_next ?p1) + i) mod ?n)) [0..<k]"
    using lt by (simp add: map_upt_Suc del: upt_Suc)
  moreover have "((tp_next p + 1) mod int ?n + int k) mod int ?n = (tp_next p + int (Suc k)) mod int ?n"
    by (simp add: mod_add_left_eq add.assoc)
  moreover have "next_loops k w ?p1 =
     Inr (map (\<lambda>i. tp_loops ?p1 ! ((nat (tp_next ?p1) + i) mod length (tp_loops ?p1))) [0..<k],
         ?p1\<lparr>tp_next := (tp_next ?p1 + int k) mod int (length (tp_loops ?p1))\<rparr>)"
    using getNextLoop_keeps [OF Suc.prems(1-3) g] Suc.prems(4) by (intro Suc.IH) auto
  ultimately show ?case using g by (simp del: upt_Suc)
qed

text \<open>A callback that leaves the loops of the pool where they are.\<close>

definition keeps_loops :: "'a init_callback \<Rightarrow> bool" where
  "keeps_loops cb \<longleftrightarrow> (case cb of None \<Rightarrow> True | Some f \<Rightarrow>
     (\<forall>l w. this_thread (f l w) = this_thread w
        \<and> (\<forall>x. map_option el_threadId (loops (f l w) x) = map_option el_threadId (loops w x))))"

definition loop_thread_of :: "'a loop_world_scheme \<Rightarrow> loop_id \<Rightarrow> tid option" where
  "loop_thread_of w l = map_option el_threadId (loops w l)"

lemma in_base_thread_iff:
  "in_base_thread w p \<longleftrightarrow> loop_thread_of w (tp_baseLoop p) = Some (this_thread w)"
  by (auto simp: in_base_thread_def loop_thread_of_def assertInLoopThread_def isInLoopThread_def
      with_loop_def split: option.splits)

lemma startLoop_effect:
  assumes "keeps_loops cb"
  shows "\<exists>w'. startLoop t l cb w = Inr w' \<and> this_thread w' = this_thread w
    \<and> loop_thread_of w' = (loop_thread_of w)(l \<mapsto> t)"
proof -
  define w2 where "w2 = (case cb of None \<Rightarrow> new_EventLoop l (w\<lparr>this_thread := t\<rparr>)
    | Some f \<Rightarrow> f l (new_EventLoop l (w\<lparr>this_thread := t\<rparr>)))"
  have thr: "loop_thread_of w2 = (loop_thread_of w)(l \<mapsto> t)"
    using assms unfolding w2_def
    by (auto simp: keeps_loops_def loop_thread_of_def new_EventLoop_def Let_def split: option.splits)
  then obtain e where "loops w2 l = Some e" "el_threadId e = t"
    by (auto simp: loop_thread_of_def dest!: fun_cong [of _ _ l])
  with thr show ?thesis
    by (auto simp: startLoop_def el_loop_def upd_loop_def with_loop_def w2_def [symmetric] Let_def
        loop_thread_of_def fun_eq_iff)
qed

text \<open>The pool and the loops' threads after \<open>n\<close> threads were started from number \<open>i\<close> on.\<close>

definition add_threads :: "(nat \<Rightarrow> tid \<times> loop_id) \<Rightarrow> nat \<Rightarrow> nat \<Rightarrow> thread_pool \<Rightarrow> thread_pool" where
  "add_threads spawn i n p =
     p\<lparr>tp_threads := tp_threads p @ map (\<lambda>j. snprintf 255 (tp_name p @ show_nat j)) [i..<i + n],
       tp_loops := tp_loops p @ map (\<lambda>j. snd (spawn j)) [i..<i + n]\<rparr>"

fun bind_threads :: "(nat \<Rightarrow> tid \<times> loop_id) \<Rightarrow> nat \<Rightarrow> nat \<Rightarrow> (loop_id \<Rightarrow> tid option) \<Rightarrow> loop_id \<Rightarrow> tid option" where
  "bind_threads spawn i 0 m = m"
| "bind_threads spawn i (Suc n) m = bind_threads spawn (Suc i) n (m(snd (spawn i) \<mapsto> fst (spawn i)))"

lemma bind_threads_old:
  "\<forall>j. i \<le> j \<and> j < i + n \<longrightarrow> snd (spawn j) \<noteq> x \<Longrightarrow> bind_threads spawn i n m x = m x"
proof (induction n arbitrary: i m)
  case (Suc n)
  then have "x \<noteq> snd (spawn i)" by auto
  with Suc.prems Suc.IH [of "Suc i"] show ?case by simp
qed simp

lemma bind_threads_new:
  assumes "inj_on (snd \<circ> spawn) {i..<i + n}" and "i \<le> j" and "j < i + n"
  shows "bind_threads spawn i n m (snd (spawn j)) = Some (fst (spawn j))"
  using assms
proof (induction n arbitrary: i m)
  case (Suc n)
  show ?case
  proof (cases "i = j")
    case True
    have "snd (spawn k) \<noteq> snd (spawn j)" if "Suc j \<le> k" "k < Suc j + n" for k
      using inj_onD [OF Suc.prems(1), of k j] that True by auto
    with True bind_threads_old [of "Suc j" n spawn "snd (spawn j)"] show ?thesis by simp
  next
    case False
    have "inj_on (snd \<circ> spawn) {Suc i..<Suc i + n}"
      using Suc.prems(1) by (rule inj_on_subset) auto
    with Suc.IH [of "Suc i" "m(snd (spawn i) \<mapsto> fst (spawn i))"] Suc.prems False show ?thesis
      by (simp add: comp_def del: fun_upd_apply)
  qed
qed simp

lemma start_threads_effect:
  assumes "keeps_loops cb"
  shows "\<exists>w'. start_threads spawn cb i n (p, w) = Inr (add_threads spawn i n p, w')
     \<and> this_thread w' = this_thread w
     \<and> loop_thread_of w' = bind_threads spawn i n (loop_thread_of w)"
proof (induction n arbitrary: i p w)
  case 0
  then show ?case by (simp add: add_threads_def)
next
  case (Suc n)
  obtain t l where sp: "spawn i = (t, l)" by (cases "spawn i")
  obtain w1 where w1: "startLoop t l cb w = Inr w1" "this_thread w1 = this_thread w"
      "loop_thread_of w1 = (loop_thread_of w)(l \<mapsto> t)"
    using startLoop_effect [OF assms] by blast
  have up: "[i..<i + Suc n] = i # [Suc i..<Suc i + n]" by (simp add: upt_conv_Cons)
  let ?p = "p\<lparr>tp_threads := tp_threads p @ [snprintf 255 (tp_name p @ show_int (int i))],
    tp_loops := tp_loops p @ [l]\<rparr>"
  have "start_threads spawn cb i (Suc n) (p, w) = start_threads spawn cb (Suc i) n (?p, w1)"
    using w1(1) sp by simp
  moreover have "add_threads spawn (Suc i) n ?p = add_threads spawn i (Suc n) p"
    unfolding add_threads_def up using sp by (simp del: upt_Suc add: show_int_def)
  ultimately show ?case
    using Suc.IH [of "Suc i" ?p w1] w1(2,3) sp by (simp del: start_threads.simps fun_upd_apply)
qed

lemma tp_start_eq:
  assumes "keeps_loops cb" and "\<not> tp_started p" and "in_base_thread w p"
  shows "\<exists>w1. tp_start spawn cb p w =
       Inr (add_threads spawn 0 (nat (tp_numThreads p)) (p\<lparr>tp_started := True\<rparr>), w1)
     \<and> loop_thread_of w1 = bind_threads spawn 0 (nat (tp_numThreads p)) (loop_thread_of w)"
proof -
  obtain w' where w': "start_threads spawn cb 0 (nat (tp_numThreads p)) (p\<lparr>tp_started := True\<rparr>, w) =
      Inr (add_threads spawn 0 (nat (tp_numThreads p)) (p\<lparr>tp_started := True\<rparr>), w')"
    "loop_thread_of w' = bind_threads spawn 0 (nat (tp_numThreads p)) (loop_thread_of w)"
    using start_threads_effect [OF assms(1)] by blast
  have keep: "loop_thread_of (f l w') = loop_thread_of w'" if "cb = Some f" for f l
    using assms(1) that by (simp add: keeps_loops_def loop_thread_of_def fun_eq_iff)
  show ?thesis
    using w' keep assms(2,3) by (cases cb) (simp_all add: tp_start_def in_base_thread_def)
qed

section \<open>Properties\<close>

text \<open>A pool of three loops in use, and the world its base loop sees.\<close>

definition sample_pool :: thread_pool where
  "sample_pool = \<lparr>tp_baseLoop = 0, tp_name = ''io'', tp_started = True, tp_numThreads = 3, tp_next = 2,
     tp_threads = [''io0'', ''io1'', ''io2''], tp_loops = [10, 11, 12]\<rparr>"

definition base_world :: loop_world where
  "base_world =
     \<lparr>this_thread = 1, t_loopInThisThread = (\<lambda>_. None)(1 := Some 0),
      loops = [0 \<mapsto> \<lparr>el_threadId = 1, el_work = True, el_stopped = False, el_posted = [UserTask 5],
        el_timers = new_TimerQueue, el_context = None\<rparr>]\<rparr>"

lemma base_world_in_base: "tp_baseLoop p = 0 \<Longrightarrow> in_base_thread base_world p"
  by (simp add: in_base_thread_iff base_world_def loop_thread_of_def)

lemma sample_pool_ok: "tp_ok sample_pool" "tp_started sample_pool" "in_base_thread base_world sample_pool"
  by (simp_all add: tp_ok_def sample_pool_def int_max_def base_world_in_base)

text \<open>
  C8: \<open>getNextLoop\<close> is a round robin. From a started pool, in the base loop's thread, any number
  of calls succeed; the \<open>i\<close>-th returns the loop \<open>i\<close> places after the current one, cyclically, so
  that every loop is returned once in each round, and the index stays within the vector. Without
  threads it always returns the base loop.
\<close>

theorem getNextLoop_round_robin:
  assumes "tp_ok p" and "tp_started p" and "in_base_thread w p" and "tp_loops p \<noteq> []"
  shows "\<exists>ls p'. next_loops k w p = Inr (ls, p') \<and> tp_ok p' \<and> length ls = k
    \<and> (\<forall>i<k. ls ! i = tp_loops p ! ((nat (tp_next p) + i) mod length (tp_loops p)))
    \<and> (k = length (tp_loops p) \<longrightarrow> set ls = set (tp_loops p) \<and> p' = p)"
proof -
  let ?n = "length (tp_loops p)"
  let ?ls = "map (\<lambda>i. tp_loops p ! ((nat (tp_next p) + i) mod ?n)) [0..<k]"
  let ?p' = "p\<lparr>tp_next := (tp_next p + int k) mod int ?n\<rparr>"
  have "tp_ok ?p'" using assms(1,4) by (auto simp: tp_ok_def)
  moreover have "set ?ls = set (tp_loops p)" if "k = ?n"
  proof -
    have lt: "nat (tp_next p) < ?n" using assms(1,4) by (auto simp: tp_ok_def)
    have "?ls = rotate (nat (tp_next p)) (tp_loops p)"
      using that by (intro nth_equalityI) (auto simp: nth_rotate)
    then show ?thesis by simp
  qed
  moreover have "?p' = p" if "k = ?n" using that assms(1,4) by (simp add: tp_ok_def)
  ultimately show ?thesis
    using next_loops_eq [OF assms] by (intro exI [of _ ?ls] exI [of _ ?p']) auto
qed

theorem getNextLoop_round_robin_witness:
  "\<exists>ls p'. next_loops 4 base_world sample_pool = Inr (ls, p') \<and> ls ! 0 = 12 \<and> ls ! 1 = 10
     \<and> ls ! 2 = 11 \<and> ls ! 3 = 12"
proof -
  have ne: "tp_loops sample_pool \<noteq> []" by (simp add: sample_pool_def)
  from getNextLoop_round_robin [OF sample_pool_ok ne, of 4] obtain ls p' where
    1: "next_loops 4 base_world sample_pool = Inr (ls, p')"
    and 2: "\<And>i. i < 4 \<Longrightarrow> ls ! i = [10, 11, 12] ! ((2 + i) mod 3)"
    by (auto simp: sample_pool_def)
  have "ls ! 0 = 12" "ls ! 1 = 10" "ls ! 2 = 11" "ls ! 3 = 12"
    by (subst 2; simp)+
  with 1 show ?thesis by blast
qed

text \<open>
  C23: \<open>start\<close>. When the operating system gives the new threads and loops identities of their own, a
  pool that was not started gets \<open>numThreads_\<close> loops, the \<open>i\<close>-th bound to its own new thread and
  named after the pool and its number, and the loops that existed keep their threads. Starting it
  again aborts.
\<close>

theorem start_creates_threads:
  assumes "keeps_loops cb" and "in_base_thread w p" and "\<not> tp_started p" and "tp_loops p = []"
    and "tp_threads p = []" and "n = nat (tp_numThreads p)"
    and "inj_on (snd \<circ> spawn) {..<n}" and "\<forall>i<n. loops w (snd (spawn i)) = None"
  shows "\<exists>p' w'. tp_start spawn cb p w = Inr (p', w') \<and> tp_started p' \<and> length (tp_loops p') = n
    \<and> (\<forall>i<n. tp_loops p' ! i = snd (spawn i) \<and> loop_thread_of w' (tp_loops p' ! i) = Some (fst (spawn i))
         \<and> tp_threads p' ! i = take 254 (tp_name p @ show_nat i))
    \<and> (\<forall>l t. loop_thread_of w l = Some t \<longrightarrow> loop_thread_of w' l = Some t)
    \<and> tp_start spawn cb p' w' = Inl AssertionFailed"
proof -
  obtain w1 where w1: "tp_start spawn cb p w = Inr (add_threads spawn 0 n (p\<lparr>tp_started := True\<rparr>), w1)"
      "loop_thread_of w1 = bind_threads spawn 0 n (loop_thread_of w)"
    using tp_start_eq [OF assms(1,3,2), of spawn] unfolding assms(6) [symmetric] by blast
  have new: "loop_thread_of w1 (snd (spawn i)) = Some (fst (spawn i))" if "i < n" for i
    using bind_threads_new [of spawn 0 n i] that assms(7) w1(2) by (simp add: atLeast0LessThan)
  have old: "loop_thread_of w1 l = Some t" if "loop_thread_of w l = Some t" for l t
  proof -
    have "\<forall>j. 0 \<le> j \<and> j < 0 + n \<longrightarrow> snd (spawn j) \<noteq> l"
      using that assms(8) by (auto simp: loop_thread_of_def)
    from bind_threads_old [OF this] that w1(2) show ?thesis by simp
  qed
  have "tp_start spawn cb (add_threads spawn 0 n (p\<lparr>tp_started := True\<rparr>)) w1 = Inl AssertionFailed"
    by (simp add: tp_start_def add_threads_def)
  with w1 assms(4,5) new old show ?thesis
    by (intro exI [of _ "add_threads spawn 0 n (p\<lparr>tp_started := True\<rparr>)"] exI [of _ w1])
      (simp add: add_threads_def snprintf_def)
qed

theorem start_creates_threads_witness:
  "\<exists>p' w'. tp_start (\<lambda>i. (20 + i, 30 + i)) None (tp_setThreadNum 2 (new_EventLoopThreadPool 0 ''io'')) base_world
       = Inr (p', w')
     \<and> length (tp_loops p') = 2 \<and> tp_loops p' ! 1 = 31 \<and> loop_thread_of w' (tp_loops p' ! 1) = Some 21
     \<and> tp_threads p' ! 1 = take 254 (''io'' @ show_nat 1)"
proof -
  let ?p = "tp_setThreadNum 2 (new_EventLoopThreadPool 0 ''io'')"
  have p: "in_base_thread base_world ?p" "\<not> tp_started ?p" "tp_loops ?p = []" "tp_threads ?p = []"
    "2 = nat (tp_numThreads ?p)" "tp_name ?p = ''io''"
    by (simp_all add: tp_setThreadNum_def new_EventLoopThreadPool_def base_world_in_base)
  have f: "inj_on (snd \<circ> (\<lambda>i::nat. (20 + i, 30 + i))) {..<2}"
    "\<forall>i<2. loops base_world (snd ((\<lambda>i::nat. (20 + i, 30 + i)) i)) = None"
    by (auto simp: inj_on_def base_world_def)
  have "keeps_loops None" by (simp add: keeps_loops_def)
  from start_creates_threads [OF this p(1-5) f] p(6) obtain p' w' where
    "tp_start (\<lambda>i. (20 + i, 30 + i)) None ?p base_world = Inr (p', w')" "length (tp_loops p') = 2"
    and 2: "\<And>i. i < 2 \<Longrightarrow> tp_loops p' ! i = 30 + i \<and> loop_thread_of w' (tp_loops p' ! i) = Some (20 + i)
         \<and> tp_threads p' ! i = take 254 (''io'' @ show_nat i)" by auto
  with 2 [of 1] show ?thesis by (intro exI [of _ p'] exI [of _ w']) simp
qed

text \<open>
  \<open>getLoopForHash\<close> always returns one of the loops of \<open>getAllLoops\<close>, the one at the hash code
  modulo their number, and the same hash code gives the same loop again however often
  \<open>getNextLoop\<close> was called in between.
\<close>

lemma getLoopForHash_stable:
  assumes "tp_ok p" and "tp_started p" and "in_base_thread w p" and "tp_loops p \<noteq> []"
    and "next_loops k w p = Inr (ls, p')"
  shows "getLoopForHash h w p' = getLoopForHash h w p
    \<and> (\<exists>all l. getAllLoops w p = Inr all \<and> getLoopForHash h w p = Inr l \<and> l \<in> set all
         \<and> l = all ! (unat h mod length all))"
proof -
  have "p' = p\<lparr>tp_next := (tp_next p + int k) mod int (length (tp_loops p))\<rparr>"
    using next_loops_eq [OF assms(1-4), of k] assms(5) by simp
  then show ?thesis
    using assms by (simp add: getLoopForHash_def getAllLoops_def in_base_thread_def)
qed

end
