(* ===== verification/TcpConnection.thy ===== *)
theory TcpConnection
  imports Buffer EventLoopThreadPool
begin

text \<open>
  A TCP connection, \<open>src/src/net/TcpConnection.h\<close> and \<open>TcpConnection.cpp\<close>.

  The world of the event loops is extended by the connection objects, by the asynchronous socket
  operations that were started and whose handlers have not been called (with the part of the
  buffer that was handed over), by the calls that were made on sockets, and by the loop each
  socket was built on. A completed operation is a step of the environment: it chooses the
  operation, the error code, the number of bytes and, for a read, the bytes.

  Objects held by a \<open>shared_ptr\<close> have a reference count: an owner is a member of another object, a
  function object that binds the pointer, or a local variable. When the last owner goes, the
  destructor runs and the object is gone; the handlers of asynchronous operations bind a plain
  \<open>this\<close>, own nothing, and may find the object gone (\<open>UseAfterFree\<close>).

  The results of calls into Boost.Asio and the callbacks of the user are arguments of the model,
  collected in \<open>conn_env\<close>. The close callback, which the library itself installs, is there too; the
  server and the client supply it.
\<close>

section \<open>State\<close>

datatype conn_state = kDisconnected | kConnecting | kConnected | kDisconnecting

record tcp_connection =
  c_loop :: "loop_id option"
  c_name :: string
  c_state :: conn_state
  c_reading :: bool
  c_socket :: sock_id
  c_localEndpoint :: endpoint
  c_peerEndpoint :: endpoint
  c_connectionCallback :: "callback option"
  c_messageCallback :: "callback option"
  c_writeCompleteCallback :: "callback option"
  c_highWaterMarkCallback :: "callback option"
  c_closeCallback :: bool            \<comment> \<open>\<open>closeCallback_\<close> is not empty\<close>
  c_highWaterMark :: size_t
  c_inputBuffer :: buffer
  c_outputBuffer :: buffer
  c_context :: any
  c_localIpPort :: string
  c_peerIpPort :: string
  c_refs :: nat                      \<comment> \<open>owners: \<open>shared_ptr\<close> objects that point here\<close>

text \<open>
  A started operation: its socket, the connection whose \<open>this\<close> its handler binds, and offset and
  length of the memory it works on, inside the vector of the input or output buffer.
\<close>

datatype io_op =
    ReadOp sock_id conn_id size_t size_t
  | SendOp sock_id conn_id size_t size_t
  | AcceptOp sock_id
  | ConnectOp sock_id

datatype sock_call = SetKeepAlive sock_id bool | SetNoDelay sock_id bool | ShutdownSend sock_id | CloseSocket sock_id

record conn_world = loop_world +
  conns :: "conn_id \<rightharpoonup> tcp_connection"
  pending :: "io_op list"
  sock_calls :: "sock_call list"
  sock_loop :: "sock_id \<rightharpoonup> loop_id"
  next_conn :: conn_id                 \<comment> \<open>identity of the next \<open>TcpConnection\<close> object\<close>
  next_sock :: sock_id                 \<comment> \<open>identity of the next socket object\<close>
  reported :: "conn_id \<Rightarrow> bool list"    \<comment> \<open>\<open>connected()\<close> at each call of the connection callback\<close>

record 'w conn_env =
  sock_local :: "sock_id \<Rightarrow> endpoint result"      \<comment> \<open>\<open>local_endpoint()\<close>\<close>
  sock_remote :: "sock_id \<Rightarrow> endpoint result"     \<comment> \<open>\<open>remote_endpoint()\<close>\<close>
  sock_option :: "sock_id \<Rightarrow> unit result"         \<comment> \<open>\<open>set_option\<close>\<close>
  sock_shutdown :: "sock_id \<Rightarrow> unit result"       \<comment> \<open>\<open>shutdown\<close>\<close>
  on_connection :: "nat \<Rightarrow> conn_id \<Rightarrow> 'w \<Rightarrow> 'w result"
  on_message :: "nat \<Rightarrow> conn_id \<Rightarrow> 'w \<Rightarrow> 'w result"
  on_write_complete :: "nat \<Rightarrow> conn_id \<Rightarrow> 'w \<Rightarrow> 'w result"
  on_close :: "conn_id \<Rightarrow> 'w \<Rightarrow> 'w result"
  on_task :: "closure \<Rightarrow> 'w \<Rightarrow> 'w result"         \<comment> \<open>function objects of other classes\<close>
  on_thread_init :: "nat \<Rightarrow> loop_id \<Rightarrow> 'w \<Rightarrow> 'w"   \<comment> \<open>callbacks for new loop threads\<close>

section \<open>Objects and owners\<close>

definition with_conn :: "conn_id \<Rightarrow> (tcp_connection \<Rightarrow> 'b result) \<Rightarrow> 'a conn_world_scheme \<Rightarrow> 'b result" where
  "with_conn c f w = (case conns w c of None \<Rightarrow> Inl UseAfterFree | Some k \<Rightarrow> f k)"

definition upd_conn :: "conn_id \<Rightarrow> (tcp_connection \<Rightarrow> tcp_connection) \<Rightarrow> 'a conn_world_scheme \<Rightarrow>
    'a conn_world_scheme result" where
  "upd_conn c f w = with_conn c (\<lambda>k. Inr (w\<lparr>conns := (conns w)(c \<mapsto> f k)\<rparr>)) w"

definition destroy_TcpConnection :: "conn_id \<Rightarrow> 'a conn_world_scheme \<Rightarrow> 'a conn_world_scheme result" where
  "destroy_TcpConnection c w =
     with_conn c (\<lambda>k. assertR (c_state k = kDisconnected) (Inr (w\<lparr>conns := (conns w)(c := None)\<rparr>))) w"

text \<open>A \<open>shared_ptr\<close> to the connection is made, and goes away.\<close>

definition hold_conn :: "conn_id \<Rightarrow> 'a conn_world_scheme \<Rightarrow> 'a conn_world_scheme result" where
  "hold_conn c = upd_conn c (\<lambda>k. k\<lparr>c_refs := c_refs k + 1\<rparr>)"

definition release_conn :: "conn_id \<Rightarrow> 'a conn_world_scheme \<Rightarrow> 'a conn_world_scheme result" where
  "release_conn c w =
     with_conn c (\<lambda>k. if c_refs k \<le> 1 then destroy_TcpConnection c w
                      else upd_conn c (\<lambda>k. k\<lparr>c_refs := c_refs k - 1\<rparr>) w) w"

text \<open>A call that gets \<open>shared_from_this()\<close>, or a local copy of the pointer, for its duration.\<close>

definition with_shared :: "conn_id \<Rightarrow> ('a conn_world_scheme \<Rightarrow> 'a conn_world_scheme result) \<Rightarrow>
    'a conn_world_scheme \<Rightarrow> 'a conn_world_scheme result" where
  "with_shared c f w = bindR (hold_conn c w) (\<lambda>w1. bindR (f w1) (release_conn c))"

text \<open>\<open>runInLoop\<close> with a function object that binds a \<open>shared_ptr\<close> to the connection.\<close>

definition runInLoop_shared :: "loop_id \<Rightarrow> closure \<Rightarrow> conn_id \<Rightarrow>
    ('a conn_world_scheme \<Rightarrow> 'a conn_world_scheme result) \<Rightarrow> 'a conn_world_scheme \<Rightarrow>
    'a conn_world_scheme result" where
  "runInLoop_shared l cb c call w =
     bindR (hold_conn c w) (runInLoop l cb (\<lambda>w1. bindR (call w1) (release_conn c)))"

section \<open>Operations\<close>

definition endPoint2ipPort :: "endpoint \<Rightarrow> string" where
  "endPoint2ipPort listenAddr = ep_address listenAddr @ '':'' @ show_nat (ep_port listenAddr)"

fun stateToString :: "conn_state \<Rightarrow> string" where
  "stateToString kDisconnected = ''kDisconnected''"
| "stateToString kConnecting = ''kConnecting''"
| "stateToString kConnected = ''kConnected''"
| "stateToString kDisconnecting = ''kDisconnecting''"

definition connected :: "tcp_connection \<Rightarrow> bool" where
  "connected k \<longleftrightarrow> c_state k = kConnected"

definition disconnected :: "tcp_connection \<Rightarrow> bool" where
  "disconnected k \<longleftrightarrow> c_state k = kDisconnected"

text \<open>The constructor, called by \<open>TcpConnectionPtr conn(new TcpConnection(...))\<close>: one owner.\<close>

definition new_TcpConnection :: "'a conn_world_scheme conn_env \<Rightarrow> loop_id option \<Rightarrow> string \<Rightarrow> sock_id \<Rightarrow>
    'a conn_world_scheme \<Rightarrow> (conn_id \<times> 'a conn_world_scheme) result" where
  "new_TcpConnection env loop name socketPtr w =
     bindR (sock_local env socketPtr) (\<lambda>localE.
     bindR (sock_remote env socketPtr) (\<lambda>peerE.
     bindR (new_Buffer kInitialSize) (\<lambda>input.
     bindR (new_Buffer kInitialSize) (\<lambda>output.
     bindR (sock_option env socketPtr) (\<lambda>_.
       Inr (next_conn w, w\<lparr>conns := (conns w)(next_conn w \<mapsto>
              \<lparr>c_loop = loop, c_name = name, c_state = kConnecting, c_reading = True, c_socket = socketPtr,
               c_localEndpoint = localE, c_peerEndpoint = peerE,
               c_connectionCallback = None, c_messageCallback = None, c_writeCompleteCallback = None,
               c_highWaterMarkCallback = None, c_closeCallback = False, c_highWaterMark = 64 * 1024 * 1024,
               c_inputBuffer = input, c_outputBuffer = output, c_context = None,
               c_localIpPort = endPoint2ipPort localE, c_peerIpPort = endPoint2ipPort peerE,
               c_refs = 1\<rparr>),
             sock_calls := sock_calls w @ [SetKeepAlive socketPtr True],
             next_conn := next_conn w + 1\<rparr>))))))"

definition setTcpNoDelay :: "'a conn_world_scheme conn_env \<Rightarrow> conn_id \<Rightarrow> bool \<Rightarrow> 'a conn_world_scheme \<Rightarrow>
    'a conn_world_scheme result" where
  "setTcpNoDelay env c on w =
     with_conn c (\<lambda>k. bindR (sock_option env (c_socket k)) (\<lambda>_.
       Inr (w\<lparr>sock_calls := sock_calls w @ [SetNoDelay (c_socket k) on]\<rparr>))) w"

definition setConnectionCallback :: "conn_id \<Rightarrow> callback option \<Rightarrow> 'a conn_world_scheme \<Rightarrow> 'a conn_world_scheme result" where
  "setConnectionCallback c cb = upd_conn c (\<lambda>k. k\<lparr>c_connectionCallback := cb\<rparr>)"

definition setMessageCallback :: "conn_id \<Rightarrow> callback option \<Rightarrow> 'a conn_world_scheme \<Rightarrow> 'a conn_world_scheme result" where
  "setMessageCallback c cb = upd_conn c (\<lambda>k. k\<lparr>c_messageCallback := cb\<rparr>)"

definition setWriteCompleteCallback :: "conn_id \<Rightarrow> callback option \<Rightarrow> 'a conn_world_scheme \<Rightarrow>
    'a conn_world_scheme result" where
  "setWriteCompleteCallback c cb = upd_conn c (\<lambda>k. k\<lparr>c_writeCompleteCallback := cb\<rparr>)"

definition setHighWaterMarkCallback :: "conn_id \<Rightarrow> callback option \<Rightarrow> size_t \<Rightarrow> 'a conn_world_scheme \<Rightarrow>
    'a conn_world_scheme result" where
  "setHighWaterMarkCallback c cb highWaterMark =
     upd_conn c (\<lambda>k. k\<lparr>c_highWaterMarkCallback := cb, c_highWaterMark := highWaterMark\<rparr>)"

definition setCloseCallback :: "conn_id \<Rightarrow> bool \<Rightarrow> 'a conn_world_scheme \<Rightarrow> 'a conn_world_scheme result" where
  "setCloseCallback c cb = upd_conn c (\<lambda>k. k\<lparr>c_closeCallback := cb\<rparr>)"

definition tc_setContext :: "conn_id \<Rightarrow> any \<Rightarrow> 'a conn_world_scheme \<Rightarrow> 'a conn_world_scheme result" where
  "tc_setContext c context = upd_conn c (\<lambda>k. k\<lparr>c_context := context\<rparr>)"

definition setState :: "conn_id \<Rightarrow> conn_state \<Rightarrow> 'a conn_world_scheme \<Rightarrow> 'a conn_world_scheme result" where
  "setState c s = upd_conn c (\<lambda>k. k\<lparr>c_state := s\<rparr>)"

subsection \<open>Callbacks\<close>

text \<open>\<open>defaultConnectionCallback\<close> only logs; \<open>defaultMessageCallback\<close> discards the input.\<close>

definition defaultConnectionCallback :: "conn_id \<Rightarrow> 'a conn_world_scheme \<Rightarrow> 'a conn_world_scheme result" where
  "defaultConnectionCallback c w = with_conn c (\<lambda>k. Inr w) w"

definition defaultMessageCallback :: "conn_id \<Rightarrow> 'a conn_world_scheme \<Rightarrow> 'a conn_world_scheme result" where
  "defaultMessageCallback c = upd_conn c (\<lambda>k. k\<lparr>c_inputBuffer := retrieveAll (c_inputBuffer k)\<rparr>)"

definition report :: "conn_id \<Rightarrow> tcp_connection \<Rightarrow> 'a conn_world_scheme \<Rightarrow> 'a conn_world_scheme" where
  "report c k w = w\<lparr>reported := (reported w)(c := reported w c @ [connected k])\<rparr>"

definition invoke_connection :: "'a conn_world_scheme conn_env \<Rightarrow> conn_id \<Rightarrow> 'a conn_world_scheme \<Rightarrow>
    'a conn_world_scheme result" where
  "invoke_connection env c w =
     with_conn c (\<lambda>k. case c_connectionCallback k of
         None \<Rightarrow> Inl BadFunctionCall
       | Some DefaultCallback \<Rightarrow> defaultConnectionCallback c (report c k w)
       | Some (UserCallback n) \<Rightarrow> on_connection env n c (report c k w)) w"

definition invoke_message :: "'a conn_world_scheme conn_env \<Rightarrow> callback \<Rightarrow> conn_id \<Rightarrow> 'a conn_world_scheme \<Rightarrow>
    'a conn_world_scheme result" where
  "invoke_message env cb c =
     (case cb of DefaultCallback \<Rightarrow> defaultMessageCallback c | UserCallback n \<Rightarrow> on_message env n c)"

definition invoke_write_complete :: "'a conn_world_scheme conn_env \<Rightarrow> callback \<Rightarrow> conn_id \<Rightarrow> 'a conn_world_scheme \<Rightarrow>
    'a conn_world_scheme result" where
  "invoke_write_complete env cb c =
     (case cb of DefaultCallback \<Rightarrow> Inr | UserCallback n \<Rightarrow> on_write_complete env n c)"

definition invoke_close :: "'a conn_world_scheme conn_env \<Rightarrow> conn_id \<Rightarrow> 'a conn_world_scheme \<Rightarrow>
    'a conn_world_scheme result" where
  "invoke_close env c w =
     with_conn c (\<lambda>k. if c_closeCallback k then on_close env c w else Inl BadFunctionCall) w"

subsection \<open>Reading and writing\<close>

definition async_read_some :: "conn_id \<Rightarrow> 'a conn_world_scheme \<Rightarrow> 'a conn_world_scheme result" where
  "async_read_some c w =
     with_conn c (\<lambda>k. Inr (w\<lparr>pending := pending w @
       [ReadOp (c_socket k) c (beginWrite (c_inputBuffer k)) (writableBytes (c_inputBuffer k))]\<rparr>)) w"

definition beginFirstRead :: "conn_id \<Rightarrow> 'a conn_world_scheme \<Rightarrow> 'a conn_world_scheme result" where
  "beginFirstRead c = async_read_some c"

definition handleClose :: "'a conn_world_scheme conn_env \<Rightarrow> conn_id \<Rightarrow> 'a conn_world_scheme \<Rightarrow>
    'a conn_world_scheme result" where
  "handleClose env c w =
     with_conn c (\<lambda>k. case c_loop k of None \<Rightarrow> Inr w | Some loop \<Rightarrow>
       bindR (assertInLoopThread loop w) (\<lambda>_.
       assertR (c_state k = kConnected \<or> c_state k = kDisconnecting) (
       bindR (setState c kDisconnected w) (\<lambda>w1.
       bindR (upd_conn c (\<lambda>k. k\<lparr>c_reading := False\<rparr>) w1) (
       with_shared c (\<lambda>w2. bindR (invoke_connection env c w2) (invoke_close env c))))))) w"

definition handleError :: "'a conn_world_scheme conn_env \<Rightarrow> conn_id \<Rightarrow> 'a conn_world_scheme \<Rightarrow>
    'a conn_world_scheme result" where
  "handleError env c w = with_conn c (\<lambda>k. handleClose env c w) w"

text \<open>The block at the end of both branches of \<open>readHandler\<close> that start the next read.\<close>

definition read_again :: "conn_id \<Rightarrow> size_t \<Rightarrow> 'a conn_world_scheme \<Rightarrow> 'a conn_world_scheme result" where
  "read_again c bytes_transferred w =
     with_conn c (\<lambda>k.
       if c_reading k then
         bindR (ensureWritableBytes bytes_transferred (c_inputBuffer k)) (\<lambda>b.
         bindR (upd_conn c (\<lambda>k. k\<lparr>c_inputBuffer := b\<rparr>) w) (async_read_some c))
       else Inr w) w"

definition readHandler :: "'a conn_world_scheme conn_env \<Rightarrow> conn_id \<Rightarrow> error_code \<Rightarrow> size_t \<Rightarrow>
    'a conn_world_scheme \<Rightarrow> 'a conn_world_scheme result" where
  "readHandler env c error bytes_transferred w =
     (case error of
        Success \<Rightarrow>
          with_conn c (\<lambda>k. bindR (hasWritten bytes_transferred (c_inputBuffer k)) (\<lambda>b.
            bindR (upd_conn c (\<lambda>k. k\<lparr>c_inputBuffer := b\<rparr>) w) (\<lambda>w1.
            bindR (case c_messageCallback k of
                     None \<Rightarrow> Inr w1
                   | Some cb \<Rightarrow> with_shared c (invoke_message env cb c) w1)
              (read_again c bytes_transferred)))) w
      | Eof \<Rightarrow> handleClose env c w
      | OtherError \<Rightarrow> bindR (handleError env c w) (read_again c bytes_transferred))"

definition writeHandler :: "'a conn_world_scheme conn_env \<Rightarrow> conn_id \<Rightarrow> error_code \<Rightarrow> size_t \<Rightarrow>
    'a conn_world_scheme \<Rightarrow> 'a conn_world_scheme result" where
  "writeHandler env c error bytes_transferred w =
     (if error = Success then
        with_conn c (\<lambda>k. bindR (retrieve bytes_transferred (c_outputBuffer k)) (\<lambda>b.
          bindR (upd_conn c (\<lambda>k. k\<lparr>c_outputBuffer := b\<rparr>) w) (\<lambda>w1.
          case c_writeCompleteCallback k of
            None \<Rightarrow> Inr w1
          | Some cb \<Rightarrow> with_shared c (invoke_write_complete env cb c) w1))) w
      else Inr w)"

definition startReadInLoop :: "conn_id \<Rightarrow> 'a conn_world_scheme \<Rightarrow> 'a conn_world_scheme result" where
  "startReadInLoop c w =
     with_conn c (\<lambda>k.
       if \<not> c_reading k then
         bindR (upd_conn c (\<lambda>k. k\<lparr>c_reading := True\<rparr>) w) (async_read_some c)
       else Inr w) w"

definition startRead :: "conn_id \<Rightarrow> 'a conn_world_scheme \<Rightarrow> 'a conn_world_scheme result" where
  "startRead c w =
     with_conn c (\<lambda>k. case c_loop k of None \<Rightarrow> Inr w
       | Some loop \<Rightarrow> runInLoop loop (StartReadInLoop c) (startReadInLoop c) w) w"

definition stopReadInLoop :: "conn_id \<Rightarrow> 'a conn_world_scheme \<Rightarrow> 'a conn_world_scheme result" where
  "stopReadInLoop c w =
     with_conn c (\<lambda>k. if c_reading k then upd_conn c (\<lambda>k. k\<lparr>c_reading := False\<rparr>) w else Inr w) w"

definition stopRead :: "conn_id \<Rightarrow> 'a conn_world_scheme \<Rightarrow> 'a conn_world_scheme result" where
  "stopRead c w =
     with_conn c (\<lambda>k. case c_loop k of None \<Rightarrow> Inr w
       | Some loop \<Rightarrow> runInLoop loop (StopReadInLoop c) (stopReadInLoop c) w) w"

text \<open>\<open>send\<close> holds \<open>mutex_\<close> throughout and calls nothing that takes it: one atomic step.\<close>

definition send :: "conn_id \<Rightarrow> byte list \<Rightarrow> 'a conn_world_scheme \<Rightarrow> 'a conn_world_scheme result" where
  "send c message w =
     with_conn c (\<lambda>k. bindR (append_chars message (c_outputBuffer k)) (\<lambda>b.
       Inr (w\<lparr>conns := (conns w)(c \<mapsto> k\<lparr>c_outputBuffer := b\<rparr>),
              pending := pending w @ [SendOp (c_socket k) c (peek b) (readableBytes b)]\<rparr>))) w"

text \<open>
  \<open>send(message, len)\<close> builds a string from \<open>(size_t)len\<close> bytes at \<open>message\<close>; \<open>mem\<close> is the memory
  that the pointer can reach.
\<close>

definition send_void :: "conn_id \<Rightarrow> byte list \<Rightarrow> int \<Rightarrow> 'a conn_world_scheme \<Rightarrow> 'a conn_world_scheme result" where
  "send_void c mem len w =
     (let n = unat (word_of_int len :: size_t) in
      if max_size < n then Inl LengthError
      else if length mem < n then Inl OutOfBounds
      else send c (take n mem) w)"

definition send_Buffer :: "conn_id \<Rightarrow> buffer \<Rightarrow> 'a conn_world_scheme \<Rightarrow> (buffer \<times> 'a conn_world_scheme) result" where
  "send_Buffer c buf w =
     bindR (retrieveAllAsString buf) (\<lambda>(message, buf').
       bindR (send c message w) (\<lambda>w1. Inr (buf', w1)))"

subsection \<open>Establishing and closing\<close>

definition connectEstablished :: "'a conn_world_scheme conn_env \<Rightarrow> conn_id \<Rightarrow> 'a conn_world_scheme \<Rightarrow>
    'a conn_world_scheme result" where
  "connectEstablished env c w =
     with_conn c (\<lambda>k. case c_loop k of None \<Rightarrow> Inr w | Some loop \<Rightarrow>
       bindR (assertInLoopThread loop w) (\<lambda>_.
       assertR (c_state k = kConnecting) (
       bindR (setState c kConnected w) (\<lambda>w1.
       bindR (beginFirstRead c w1) (
       with_shared c (invoke_connection env c)))))) w"

definition connectDestroyed :: "'a conn_world_scheme conn_env \<Rightarrow> conn_id \<Rightarrow> 'a conn_world_scheme \<Rightarrow>
    'a conn_world_scheme result" where
  "connectDestroyed env c w =
     with_conn c (\<lambda>k. case c_loop k of None \<Rightarrow> Inr w | Some loop \<Rightarrow>
       bindR (assertInLoopThread loop w) (\<lambda>_.
       if c_state k = kConnected then
         bindR (setState c kDisconnected w) (with_shared c (invoke_connection env c))
       else Inr w)) w"

definition shutdownInLoop :: "'a conn_world_scheme conn_env \<Rightarrow> conn_id \<Rightarrow> 'a conn_world_scheme \<Rightarrow>
    'a conn_world_scheme result" where
  "shutdownInLoop env c w =
     with_conn c (\<lambda>k. case c_loop k of None \<Rightarrow> Inl AssertionFailed | Some loop \<Rightarrow>
       bindR (assertInLoopThread loop w) (\<lambda>_.
       bindR (sock_shutdown env (c_socket k)) (\<lambda>_.
         Inr (w\<lparr>sock_calls := sock_calls w @ [ShutdownSend (c_socket k)]\<rparr>)))) w"

definition tc_shutdown :: "'a conn_world_scheme conn_env \<Rightarrow> conn_id \<Rightarrow> 'a conn_world_scheme \<Rightarrow>
    'a conn_world_scheme result" where
  "tc_shutdown env c w =
     with_conn c (\<lambda>k.
       if c_state k = kConnected then
         (case c_loop k of None \<Rightarrow> Inr w | Some loop \<Rightarrow>
            bindR (setState c kDisconnecting w)
              (runInLoop loop (ShutdownInLoop c) (shutdownInLoop env c)))
       else Inr w) w"

definition forceCloseInLoop :: "'a conn_world_scheme conn_env \<Rightarrow> conn_id \<Rightarrow> 'a conn_world_scheme \<Rightarrow>
    'a conn_world_scheme result" where
  "forceCloseInLoop env c w =
     with_conn c (\<lambda>k. case c_loop k of None \<Rightarrow> Inl NullDereference | Some loop \<Rightarrow>
       bindR (assertInLoopThread loop w) (\<lambda>_.
       if c_state k = kConnected \<or> c_state k = kDisconnecting then handleClose env c w else Inr w)) w"

definition forceClose :: "'a conn_world_scheme conn_env \<Rightarrow> conn_id \<Rightarrow> 'a conn_world_scheme \<Rightarrow>
    'a conn_world_scheme result" where
  "forceClose env c w =
     with_conn c (\<lambda>k.
       if c_state k = kConnected \<or> c_state k = kDisconnecting then
         bindR (setState c kDisconnecting w) (\<lambda>w1.
         case c_loop k of None \<Rightarrow> Inl NullDereference | Some loop \<Rightarrow>
           runInLoop_shared loop (ForceCloseInLoop c) c (forceCloseInLoop env c) w1)
       else Inr w) w"

section \<open>The environment's steps\<close>

text \<open>The meaning of the function objects, called by a loop; a bound \<open>shared_ptr\<close> goes away afterwards.\<close>

fun run_closure :: "'a conn_world_scheme conn_env \<Rightarrow> closure \<Rightarrow> 'a conn_world_scheme \<Rightarrow>
    'a conn_world_scheme result" where
  "run_closure env (StartReadInLoop c) w = startReadInLoop c w"
| "run_closure env (StopReadInLoop c) w = stopReadInLoop c w"
| "run_closure env (ShutdownInLoop c) w = shutdownInLoop env c w"
| "run_closure env (ForceCloseInLoop c) w = bindR (forceCloseInLoop env c w) (release_conn c)"
| "run_closure env (ConnectEstablished c) w = bindR (connectEstablished env c w) (release_conn c)"
| "run_closure env (ConnectDestroyed c) w = bindR (connectDestroyed env c w) (release_conn c)"
| "run_closure env (SetCloseCallback c) w = bindR (setCloseCallback c True w) (release_conn c)"
| "run_closure env cb w = on_task env cb w"

text \<open>
  The handler of the \<open>i\<close>-th started operation is called, in the thread of the loop that the socket
  was built on. Before a read handler is called the bytes were stored in the window.
\<close>

definition in_sock_thread :: "sock_id \<Rightarrow> 'a conn_world_scheme \<Rightarrow> 'a conn_world_scheme" where
  "in_sock_thread s w =
     (case sock_loop w s of None \<Rightarrow> w | Some l \<Rightarrow>
        (case loops w l of None \<Rightarrow> w | Some e \<Rightarrow> w\<lparr>this_thread := el_threadId e\<rparr>))"

definition drop_pending :: "nat \<Rightarrow> 'a conn_world_scheme \<Rightarrow> 'a conn_world_scheme" where
  "drop_pending i w = w\<lparr>pending := take i (pending w) @ drop (Suc i) (pending w)\<rparr>"

definition store_input :: "conn_id \<Rightarrow> size_t \<Rightarrow> byte list \<Rightarrow> 'a conn_world_scheme \<Rightarrow> 'a conn_world_scheme result" where
  "store_input c off data w =
     with_conn c (\<lambda>k. bindR (std_copy data (unat off) (buffer_vec (c_inputBuffer k))) (\<lambda>v.
       upd_conn c (\<lambda>k. k\<lparr>c_inputBuffer := (c_inputBuffer k)\<lparr>buffer_vec := v\<rparr>\<rparr>) w)) w"

definition complete :: "'a conn_world_scheme conn_env \<Rightarrow> nat \<Rightarrow> error_code \<Rightarrow> byte list \<Rightarrow> 'a conn_world_scheme \<Rightarrow>
    'a conn_world_scheme result" where
  "complete env i error data w =
     (if i < length (pending w) then
        (case pending w ! i of
           ReadOp s c off len \<Rightarrow>
             (if unat len < length data then Inr w
              else let w1 = in_sock_thread s (drop_pending i w) in
                bindR (if data = [] then Inr w1 else store_input c off data w1)
                  (readHandler env c error (of_nat (length data))))
         | SendOp s c off len \<Rightarrow>
             (if unat len < length data then Inr w
              else writeHandler env c error (of_nat (length data)) (in_sock_thread s (drop_pending i w)))
         | _ \<Rightarrow> Inr w)
      else Inr w)"

text \<open>
  What happens to connections, one event at a time: calls of the public operations from any thread
  (\<open>Switch\<close> chooses the running thread), function objects called by the loops, and completed
  operations. \<open>Hold\<close> and \<open>Release\<close> are copies of the pointer that the user or another class keeps.
\<close>

datatype conn_event =
    New "loop_id option" string sock_id
  | Switch tid
  | SetConnectionCb conn_id "callback option"
  | SetMessageCb conn_id "callback option"
  | SetWriteCompleteCb conn_id "callback option"
  | SetCloseCb conn_id bool
  | Established conn_id
  | Destroyed conn_id
  | StartRead conn_id
  | StopRead conn_id
  | Send conn_id "byte list"
  | Shutdown conn_id
  | ForceClose conn_id
  | Hold conn_id
  | Release conn_id
  | Dispatch loop_id nat
  | Complete nat error_code "byte list"

fun conn_exec :: "'a conn_world_scheme conn_env \<Rightarrow> conn_event \<Rightarrow> 'a conn_world_scheme \<Rightarrow>
    'a conn_world_scheme result" where
  "conn_exec env (New l name s) w = bindR (new_TcpConnection env l name s w) (\<lambda>(c, w1). Inr w1)"
| "conn_exec env (Switch t) w = Inr (w\<lparr>this_thread := t\<rparr>)"
| "conn_exec env (SetConnectionCb c cb) w = setConnectionCallback c cb w"
| "conn_exec env (SetMessageCb c cb) w = setMessageCallback c cb w"
| "conn_exec env (SetWriteCompleteCb c cb) w = setWriteCompleteCallback c cb w"
| "conn_exec env (SetCloseCb c cb) w = setCloseCallback c cb w"
| "conn_exec env (Established c) w = connectEstablished env c w"
| "conn_exec env (Destroyed c) w = connectDestroyed env c w"
| "conn_exec env (StartRead c) w = startRead c w"
| "conn_exec env (StopRead c) w = stopRead c w"
| "conn_exec env (Send c message) w = send c message w"
| "conn_exec env (Shutdown c) w = tc_shutdown env c w"
| "conn_exec env (ForceClose c) w = forceClose env c w"
| "conn_exec env (Hold c) w = hold_conn c w"
| "conn_exec env (Release c) w = release_conn c w"
| "conn_exec env (Dispatch l i) w = dispatch (run_closure env) l i w"
| "conn_exec env (Complete i error data) w = complete env i error data w"

inductive conn_step :: "'a conn_world_scheme conn_env \<Rightarrow> 'a conn_world_scheme \<Rightarrow> 'a conn_world_scheme \<Rightarrow> bool"
  for env where
  conn_step_exec: "conn_exec env ev w = Inr w' \<Longrightarrow> conn_step env w w'"

text \<open>Before any connection was made.\<close>

definition no_conns :: "'a conn_world_scheme \<Rightarrow> bool" where
  "no_conns w \<longleftrightarrow> conns w = Map.empty \<and> pending w = [] \<and> reported w = (\<lambda>_. [])"

section \<open>Lifecycle\<close>

text \<open>
  How the state of a connection and the calls of its connection callback belong together, and what
  remains when the object is gone.
\<close>

fun lifecycle :: "conn_state \<Rightarrow> bool list \<Rightarrow> bool" where
  "lifecycle kConnecting r \<longleftrightarrow> r = []"
| "lifecycle kConnected r \<longleftrightarrow> r = [True]"
| "lifecycle kDisconnecting r \<longleftrightarrow> r = [True]"
| "lifecycle kDisconnected r \<longleftrightarrow> r = [True, False]"

fun life_at :: "conn_state option \<Rightarrow> bool list \<Rightarrow> bool" where
  "life_at None r \<longleftrightarrow> r = [] \<or> r = [True, False]"
| "life_at (Some s) r \<longleftrightarrow> lifecycle s r"

definition life_ok :: "conn_id \<Rightarrow> (conn_id \<rightharpoonup> conn_state) \<Rightarrow> (conn_id \<Rightarrow> bool list) \<Rightarrow> bool" where
  "life_ok next st rep \<longleftrightarrow> (\<forall>c. life_at (st c) (rep c)) \<and> (\<forall>c\<ge>next. st c = None \<and> rep c = [])"

definition states :: "'a conn_world_scheme \<Rightarrow> conn_id \<rightharpoonup> conn_state" where
  "states w c = map_option c_state (conns w c)"

definition life_inv :: "'a conn_world_scheme \<Rightarrow> bool" where
  "life_inv w \<longleftrightarrow> life_ok (next_conn w) (states w) (reported w)"

text \<open>The contract of the callbacks: they leave the connections in a consistent state.\<close>

locale conn_callbacks =
  fixes env :: "'a conn_world_scheme conn_env"
  assumes connection_cb: "life_inv w \<Longrightarrow> on_connection env n c w = Inr w' \<Longrightarrow> life_inv w'"
    and message_cb: "life_inv w \<Longrightarrow> on_message env n c w = Inr w' \<Longrightarrow> life_inv w'"
    and write_complete_cb: "life_inv w \<Longrightarrow> on_write_complete env n c w = Inr w' \<Longrightarrow> life_inv w'"
    and close_cb: "life_inv w \<Longrightarrow> on_close env c w = Inr w' \<Longrightarrow> life_inv w'"
    and task_cb: "life_inv w \<Longrightarrow> on_task env f w = Inr w' \<Longrightarrow> life_inv w'"
    and thread_init_cb: "life_inv w \<Longrightarrow> life_inv (on_thread_init env n l w)"

subsection \<open>Operations that change no state\<close>

named_theorems frame_dests \<open>what an operation leaves unchanged\<close>

definition same_life :: "'a conn_world_scheme \<Rightarrow> 'a conn_world_scheme \<Rightarrow> bool" where
  "same_life w w' \<longleftrightarrow> states w' = states w \<and> reported w' = reported w \<and> next_conn w' = next_conn w"

lemma same_life_inv: "same_life w w' \<Longrightarrow> life_inv w' = life_inv w"
  by (simp add: same_life_def life_inv_def)

lemma with_conn_Inr [result_simps]:
  "with_conn c f w = Inr y \<longleftrightarrow> (\<exists>k. conns w c = Some k \<and> f k = Inr y)"
  by (auto simp: with_conn_def split: option.splits)

lemma with_conn_Inl [result_simps]:
  "with_conn c f w = Inl e \<longleftrightarrow>
     (conns w c = None \<and> e = UseAfterFree) \<or> (\<exists>k. conns w c = Some k \<and> f k = Inl e)"
  by (auto simp: with_conn_def split: option.splits)

lemma upd_conn_Inr [result_simps]:
  "upd_conn c f w = Inr w' \<longleftrightarrow>
     (\<exists>k. conns w c = Some k \<and> w' = w\<lparr>conns := (conns w)(c \<mapsto> f k)\<rparr>)"
  by (auto simp: upd_conn_def result_simps)

lemma with_loop_Inr [result_simps]:
  "with_loop l f w = Inr y \<longleftrightarrow> (\<exists>e. loops w l = Some e \<and> f e = Inr y)"
  by (auto simp: with_loop_def split: option.splits)

lemma upd_conn_frame:
  "upd_conn c f w = Inr w' \<Longrightarrow> (\<And>k. c_state (f k) = c_state k) \<Longrightarrow> same_life w w'"
  by (auto simp: result_simps same_life_def states_def fun_eq_iff)

lemma same_life_fields:
  "same_life w (w\<lparr>this_thread := t\<rparr>)" "same_life w (w\<lparr>loops := ls\<rparr>)" "same_life w (w\<lparr>pending := p\<rparr>)"
  "same_life w (w\<lparr>sock_calls := sc\<rparr>)" "same_life w (w\<lparr>sock_loop := sl\<rparr>)" "same_life w (w\<lparr>next_sock := n\<rparr>)"
  "same_life w w"
  by (simp_all add: same_life_def states_def fun_eq_iff)

lemma same_life_trans: "same_life w w1 \<Longrightarrow> same_life w1 w2 \<Longrightarrow> same_life w w2"
  by (simp add: same_life_def)

lemma hold_conn_frame [frame_dests]: "hold_conn c w = Inr w' \<Longrightarrow> same_life w w'"
  unfolding hold_conn_def by (erule upd_conn_frame) simp

lemma setters_frame [frame_dests]:
  "setConnectionCallback c cb w = Inr w' \<Longrightarrow> same_life w w'"
  "setMessageCallback c cb w = Inr w' \<Longrightarrow> same_life w w'"
  "setWriteCompleteCallback c cb w = Inr w' \<Longrightarrow> same_life w w'"
  "setCloseCallback c b w = Inr w' \<Longrightarrow> same_life w w'"
  "tc_setContext c x w = Inr w' \<Longrightarrow> same_life w w'"
  "setHighWaterMarkCallback c cb n w = Inr w' \<Longrightarrow> same_life w w'"
  unfolding setConnectionCallback_def setMessageCallback_def setWriteCompleteCallback_def
    setCloseCallback_def tc_setContext_def setHighWaterMarkCallback_def
  by (erule upd_conn_frame, simp)+

lemma defaultMessageCallback_frame [frame_dests]: "defaultMessageCallback c w = Inr w' \<Longrightarrow> same_life w w'"
  unfolding defaultMessageCallback_def by (erule upd_conn_frame) simp

lemma async_read_some_frame [frame_dests]: "async_read_some c w = Inr w' \<Longrightarrow> same_life w w'"
  by (auto simp: async_read_some_def result_simps same_life_fields)

lemma beginFirstRead_frame [frame_dests]: "beginFirstRead c w = Inr w' \<Longrightarrow> same_life w w'"
  by (simp add: beginFirstRead_def async_read_some_frame)

lemma upd_then_read_frame:
  assumes "bindR (upd_conn c f w) (async_read_some c) = Inr w'" and "\<And>k. c_state (f k) = c_state k"
  shows "same_life w w'"
proof -
  obtain w1 where "upd_conn c f w = Inr w1" and "async_read_some c w1 = Inr w'"
    using assms(1) by (auto simp: bindR_eq_Inr)
  with assms(2) show ?thesis by (blast intro: same_life_trans upd_conn_frame async_read_some_frame)
qed

lemma read_again_frame [frame_dests]: "read_again c n w = Inr w' \<Longrightarrow> same_life w w'"
  by (auto simp: read_again_def with_conn_Inr bindR_eq_Inr [of "ensureWritableBytes _ _"] same_life_fields
      split: if_splits elim!: upd_then_read_frame)

lemma startReadInLoop_frame [frame_dests]: "startReadInLoop c w = Inr w' \<Longrightarrow> same_life w w'"
  by (auto simp: startReadInLoop_def with_conn_Inr same_life_fields split: if_splits elim!: upd_then_read_frame)

lemma stopReadInLoop_frame [frame_dests]: "stopReadInLoop c w = Inr w' \<Longrightarrow> same_life w w'"
  by (auto simp: stopReadInLoop_def with_conn_Inr same_life_fields split: if_splits elim!: upd_conn_frame)

lemma shutdownInLoop_frame [frame_dests]: "shutdownInLoop env c w = Inr w' \<Longrightarrow> same_life w w'"
  by (auto simp: shutdownInLoop_def result_simps same_life_fields split: option.splits)

lemma send_frame [frame_dests]: "send c m w = Inr w' \<Longrightarrow> same_life w w'"
  by (auto simp: send_def result_simps same_life_def states_def fun_eq_iff)

lemma store_input_frame [frame_dests]: "store_input c off data w = Inr w' \<Longrightarrow> same_life w w'"
  by (auto simp: store_input_def with_conn_Inr bindR_eq_Inr elim!: upd_conn_frame)

lemma queueInLoop_frame [frame_dests]: "queueInLoop l cb w = Inr w' \<Longrightarrow> same_life w w'"
  by (auto simp: queueInLoop_def upd_loop_def result_simps same_life_fields)

lemma runInLoop_cases:
  assumes "runInLoop l cb call w = Inr w'"
  obtains "call w = Inr w'" | "queueInLoop l cb w = Inr w'"
  using assms by (auto simp: runInLoop_def result_simps split: if_splits)

lemma runInLoop_frame:
  assumes "runInLoop l cb call w = Inr w'" and "call w = Inr w' \<Longrightarrow> same_life w w'"
  shows "same_life w w'"
  using assms(1) by (rule runInLoop_cases) (rule assms(2), assumption, rule queueInLoop_frame)

lemma startRead_frame [frame_dests]: "startRead c w = Inr w' \<Longrightarrow> same_life w w'"
  by (auto simp: startRead_def with_conn_Inr same_life_fields split: option.splits
      elim!: runInLoop_frame startReadInLoop_frame)

lemma stopRead_frame [frame_dests]: "stopRead c w = Inr w' \<Longrightarrow> same_life w w'"
  by (auto simp: stopRead_def with_conn_Inr same_life_fields split: option.splits
      elim!: runInLoop_frame stopReadInLoop_frame)

lemma environment_frame:
  "same_life w (in_sock_thread s w)" "same_life w (drop_pending i w)"
  by (auto simp: in_sock_thread_def drop_pending_def same_life_fields split: option.splits)

subsection \<open>Operations that change the state\<close>

text \<open>
  \<open>due\<close>: the state was changed and the connection callback is yet to be called with the new state.
\<close>

definition due :: "conn_id \<Rightarrow> bool \<Rightarrow> 'a conn_world_scheme \<Rightarrow> bool" where
  "due c up w \<longleftrightarrow> states w c = Some (if up then kConnected else kDisconnected)
     \<and> life_ok (next_conn w) (states w) ((reported w)(c := reported w c @ [up]))"

lemma due_frame: "due c up w \<Longrightarrow> same_life w w' \<Longrightarrow> due c up w'"
  by (simp add: due_def same_life_def)

lemma life_okD: "life_ok next st rep \<Longrightarrow> st c = Some s \<Longrightarrow> lifecycle s (rep c)"
  unfolding life_ok_def by (metis life_at.simps(2))

lemma life_ok_upd:
  assumes "life_ok next st rep" and "st c \<noteq> None" and "life_at s r"
  shows "life_ok next (st(c := s)) (rep(c := r))"
proof -
  have "\<not> next \<le> c" using assms(1,2) by (auto simp: life_ok_def)
  with assms show ?thesis by (auto simp: life_ok_def)
qed

lemma life_ok_state:
  "life_ok next st rep \<Longrightarrow> st c \<noteq> None \<Longrightarrow> life_at s (rep c) \<Longrightarrow> life_ok next (st(c := s)) rep"
  using life_ok_upd [of "next" st rep c s "rep c"] by simp

lemma states_setState:
  "setState c s w = Inr w' \<Longrightarrow>
     states w' = (states w)(c \<mapsto> s) \<and> reported w' = reported w \<and> next_conn w' = next_conn w"
  by (auto simp: setState_def result_simps states_def fun_eq_iff)

lemma setState_due:
  assumes "life_inv w" and "states w c = Some s" and "setState c s' w = Inr w'"
    and "(s, s', up) \<in> {(kConnecting, kConnected, True), (kConnected, kDisconnected, False),
           (kDisconnecting, kDisconnected, False)}"
  shows "due c up w'"
proof -
  have "lifecycle s (reported w c)" using assms(1,2) life_okD by (auto simp: life_inv_def)
  with assms(4) have "lifecycle s' (reported w c @ [up])" by auto
  with assms states_setState [OF assms(3)] show ?thesis
    using life_ok_upd [of "next_conn w" "states w" "reported w" c "Some s'" "reported w c @ [up]"]
    by (auto simp: due_def life_inv_def)
qed

lemma setState_disconnecting:
  assumes "life_inv w" and "states w c = Some s" and "s \<in> {kConnected, kDisconnecting}"
    and "setState c kDisconnecting w = Inr w'"
  shows "life_inv w'"
proof -
  have "lifecycle s (reported w c)" using assms(1,2) life_okD by (auto simp: life_inv_def)
  with assms(3) have "lifecycle kDisconnecting (reported w c)" by auto
  with assms(1,2) states_setState [OF assms(4)] show ?thesis
    by (simp add: life_inv_def life_ok_state)
qed

lemma report_due: "due c up w \<Longrightarrow> conns w c = Some k \<Longrightarrow> life_inv (report c k w)"
  by (auto simp: due_def life_inv_def report_def connected_def states_def [abs_def] split: if_splits)

lemma destroy_life:
  assumes "life_inv w" and "destroy_TcpConnection c w = Inr w'"
  shows "life_inv w'"
proof -
  have st: "states w c = Some kDisconnected" "states w' = (states w)(c := None)" "reported w' = reported w"
    "next_conn w' = next_conn w"
    using assms(2) by (auto simp: destroy_TcpConnection_def result_simps states_def fun_eq_iff)
  then have "reported w c = [True, False]" using assms(1) life_okD by (fastforce simp: life_inv_def)
  with st assms(1) show ?thesis by (simp add: life_inv_def life_ok_state)
qed

lemma release_life:
  assumes "life_inv w" and "release_conn c w = Inr w'"
  shows "life_inv w'"
proof -
  obtain k where k: "conns w c = Some k" using assms(2) by (auto simp: release_conn_def with_conn_Inr)
  show ?thesis
  proof (cases "c_refs k \<le> 1")
    case True
    with assms k destroy_life show ?thesis by (auto simp: release_conn_def with_conn_def)
  next
    case False
    with assms(2) k have "upd_conn c (\<lambda>k. k\<lparr>c_refs := c_refs k - 1\<rparr>) w = Inr w'"
      by (simp add: release_conn_def with_conn_def)
    from upd_conn_frame [OF this] assms(1) show ?thesis by (simp add: same_life_inv)
  qed
qed

lemma bind_release_life:
  assumes "bindR (f w) (release_conn c) = Inr w'" and "\<And>w1. f w = Inr w1 \<Longrightarrow> life_inv w1"
  shows "life_inv w'"
  using assms by (auto simp: bindR_eq_Inr intro: release_life)

lemma frame_life: "same_life w w' \<Longrightarrow> life_inv w \<Longrightarrow> life_inv w'"
  by (simp add: same_life_inv)

lemma new_TcpConnection_life:
  assumes "life_inv w" and "new_TcpConnection env l name s w = Inr (c, w')"
  shows "life_inv w'"
proof -
  have "states w' = (states w)(next_conn w \<mapsto> kConnecting)" "reported w' = reported w"
    "next_conn w' = next_conn w + 1"
    using assms(2) by (auto simp: new_TcpConnection_def result_simps states_def fun_eq_iff)
  with assms(1) show ?thesis by (auto simp: life_inv_def life_ok_def)
qed

lemma with_shared_life:
  assumes "with_shared c f w = Inr w'" and "P w" and "\<And>w w'. P w \<Longrightarrow> same_life w w' \<Longrightarrow> P w'"
    and "\<And>w w'. P w \<Longrightarrow> f w = Inr w' \<Longrightarrow> life_inv w'"
  shows "life_inv w'"
proof -
  obtain w1 w2 where "hold_conn c w = Inr w1" "f w1 = Inr w2" "release_conn c w2 = Inr w'"
    using assms(1) by (auto simp: with_shared_def result_simps)
  with assms(2-4) show ?thesis by (metis hold_conn_frame release_life)
qed

lemma runInLoop_life:
  "runInLoop l cb call w = Inr w' \<Longrightarrow> life_inv w \<Longrightarrow> (call w = Inr w' \<Longrightarrow> life_inv w') \<Longrightarrow> life_inv w'"
  by (metis runInLoop_cases queueInLoop_frame same_life_inv)

lemma runInLoop_shared_life:
  assumes "runInLoop_shared l cb c call w = Inr w'" and "life_inv w"
    and "\<And>w w'. life_inv w \<Longrightarrow> call w = Inr w' \<Longrightarrow> life_inv w'"
  shows "life_inv w'"
proof -
  obtain w1 where w1: "hold_conn c w = Inr w1"
    and run: "runInLoop l cb (\<lambda>w. bindR (call w) (release_conn c)) w1 = Inr w'"
    using assms(1) by (auto simp: runInLoop_shared_def bindR_eq_Inr)
  have inv: "life_inv w1" using frame_life [OF hold_conn_frame [OF w1] assms(2)] .
  then show ?thesis
    by (rule runInLoop_life [OF run]) (erule bind_release_life, rule assms(3) [OF inv])
qed

lemma tc_shutdown_life: "life_inv w \<Longrightarrow> tc_shutdown env c w = Inr w' \<Longrightarrow> life_inv w'"
proof -
  assume inv: "life_inv w" and sh: "tc_shutdown env c w = Inr w'"
  then obtain k where k: "conns w c = Some k" by (auto simp: tc_shutdown_def with_conn_Inr)
  show ?thesis
  proof (cases "c_state k = kConnected \<and> c_loop k \<noteq> None")
    case True
    then obtain w1 l where "setState c kDisconnecting w = Inr w1"
        and run: "runInLoop l (ShutdownInLoop c) (shutdownInLoop env c) w1 = Inr w'"
      using sh k by (auto simp: tc_shutdown_def with_conn_def bindR_eq_Inr split: option.splits)
    then have "life_inv w1"
      using setState_disconnecting [OF inv] True k by (auto simp: states_def)
    with run show ?thesis by (auto elim!: runInLoop_life dest!: shutdownInLoop_frame same_life_inv)
  next
    case False
    with sh k inv show ?thesis by (auto simp: tc_shutdown_def with_conn_def split: option.splits if_splits)
  qed
qed

subsection \<open>The handlers, for callbacks that keep the contract\<close>

context conn_callbacks
begin

lemma invoke_connection_life:
  assumes "due c up w" and "invoke_connection env c w = Inr w'"
  shows "life_inv w'"
proof -
  obtain k where k: "conns w c = Some k" using assms(2) by (auto simp: invoke_connection_def with_conn_Inr)
  note inv = report_due [OF assms(1) k]
  from k assms(2) have "defaultConnectionCallback c (report c k w) = Inr w'
      \<or> (\<exists>n. on_connection env n c (report c k w) = Inr w')"
    by (auto simp: invoke_connection_def with_conn_def split: option.splits callback.splits)
  with inv connection_cb show ?thesis by (auto simp: defaultConnectionCallback_def with_conn_Inr)
qed

lemma with_shared_connection_life:
  "due c up w \<Longrightarrow> with_shared c (invoke_connection env c) w = Inr w' \<Longrightarrow> life_inv w'"
  by (erule with_shared_life [where P = "due c up"]) (auto intro: due_frame invoke_connection_life)

lemma invoke_close_life: "life_inv w \<Longrightarrow> invoke_close env c w = Inr w' \<Longrightarrow> life_inv w'"
  by (auto simp: invoke_close_def with_conn_Inr split: if_splits dest: close_cb)

lemma invoke_message_life: "life_inv w \<Longrightarrow> invoke_message env cb c w = Inr w' \<Longrightarrow> life_inv w'"
  by (cases cb) (auto simp: invoke_message_def same_life_inv dest: message_cb defaultMessageCallback_frame)

lemma invoke_write_complete_life:
  "life_inv w \<Longrightarrow> invoke_write_complete env cb c w = Inr w' \<Longrightarrow> life_inv w'"
  by (cases cb) (auto simp: invoke_write_complete_def dest: write_complete_cb)

lemma handleClose_life:
  assumes "life_inv w" and "handleClose env c w = Inr w'"
  shows "life_inv w'"
proof -
  obtain k where k: "conns w c = Some k" using assms(2) by (auto simp: handleClose_def with_conn_Inr)
  show ?thesis
  proof (cases "c_loop k")
    case None
    with assms k show ?thesis by (simp add: handleClose_def with_conn_def)
  next
    case (Some l)
    with assms(2) k obtain w1 w2 where st: "c_state k = kConnected \<or> c_state k = kDisconnecting"
      and w1: "setState c kDisconnected w = Inr w1"
      and w2: "upd_conn c (\<lambda>k. k\<lparr>c_reading := False\<rparr>) w1 = Inr w2"
      and cb: "with_shared c (\<lambda>w2. bindR (invoke_connection env c w2) (invoke_close env c)) w2 = Inr w'"
      unfolding handleClose_def with_conn_def by (auto simp: bindR_eq_Inr assertR_eq_Inr)
    have "due c False w1"
      using setState_due [OF assms(1) _ w1] k st by (auto simp: states_def)
    moreover have "same_life w1 w2" using w2 by (rule upd_conn_frame) simp
    ultimately have "due c False w2" by (rule due_frame)
    then show ?thesis
      by (rule with_shared_life [OF cb])
        (auto simp: bindR_eq_Inr intro: due_frame invoke_close_life invoke_connection_life)
  qed
qed

lemma handleError_life: "life_inv w \<Longrightarrow> handleError env c w = Inr w' \<Longrightarrow> life_inv w'"
  by (auto simp: handleError_def with_conn_Inr dest: handleClose_life)

lemma with_shared_keeps:
  "life_inv w \<Longrightarrow> with_shared c f w = Inr w' \<Longrightarrow> (\<And>w w'. life_inv w \<Longrightarrow> f w = Inr w' \<Longrightarrow> life_inv w') \<Longrightarrow>
     life_inv w'"
  by (erule with_shared_life [where P = life_inv]) (auto simp: same_life_inv)

lemma readHandler_life:
  assumes "life_inv w" and "readHandler env c error n w = Inr w'"
  shows "life_inv w'"
proof (cases error)
  case Success
  with assms(2) obtain k b w1 w2 where "conns w c = Some k"
    and w1: "upd_conn c (\<lambda>k. k\<lparr>c_inputBuffer := b\<rparr>) w = Inr w1"
    and w2: "(case c_messageCallback k of None \<Rightarrow> Inr w1
        | Some cb \<Rightarrow> with_shared c (invoke_message env cb c) w1) = Inr w2"
    and w': "read_again c n w2 = Inr w'"
    by (auto simp: readHandler_def bindR_eq_Inr with_conn_Inr)
  have "life_inv w1" using w1 assms(1) upd_conn_frame [OF w1] by (simp add: same_life_inv)
  with w2 have "life_inv w2"
    by (auto split: option.splits elim: with_shared_keeps intro: invoke_message_life)
  with read_again_frame [OF w'] show ?thesis by (simp add: same_life_inv)
next
  case Eof
  with assms handleClose_life show ?thesis by (simp add: readHandler_def)
next
  case OtherError
  with assms(2) obtain w1 where "handleError env c w = Inr w1" "read_again c n w1 = Inr w'"
    by (auto simp: readHandler_def bindR_eq_Inr)
  with assms(1) show ?thesis by (metis handleError_life read_again_frame same_life_inv)
qed

lemma writeHandler_life:
  assumes "life_inv w" and "writeHandler env c error n w = Inr w'"
  shows "life_inv w'"
proof (cases "error = Success")
  case True
  with assms(2) obtain k b w1 where "conns w c = Some k"
    and w1: "upd_conn c (\<lambda>k. k\<lparr>c_outputBuffer := b\<rparr>) w = Inr w1"
    and w2: "(case c_writeCompleteCallback k of None \<Rightarrow> Inr w1
        | Some cb \<Rightarrow> with_shared c (invoke_write_complete env cb c) w1) = Inr w'"
    by (auto simp: writeHandler_def bindR_eq_Inr with_conn_Inr)
  have "life_inv w1" using w1 assms(1) upd_conn_frame [OF w1] by (simp add: same_life_inv)
  with w2 show ?thesis
    by (auto split: option.splits elim: with_shared_keeps intro: invoke_write_complete_life)
next
  case False
  with assms show ?thesis by (simp add: writeHandler_def)
qed

lemma connectEstablished_life:
  assumes "life_inv w" and "connectEstablished env c w = Inr w'"
  shows "life_inv w'"
proof -
  obtain k where k: "conns w c = Some k" using assms(2) by (auto simp: connectEstablished_def with_conn_Inr)
  show ?thesis
  proof (cases "c_loop k")
    case None
    with assms k show ?thesis by (simp add: connectEstablished_def with_conn_def)
  next
    case (Some l)
    with assms(2) k obtain w1 w2 where st: "c_state k = kConnecting"
      and w1: "setState c kConnected w = Inr w1" and w2: "beginFirstRead c w1 = Inr w2"
      and cb: "with_shared c (invoke_connection env c) w2 = Inr w'"
      unfolding connectEstablished_def with_conn_def by (auto simp: bindR_eq_Inr assertR_eq_Inr)
    have "due c True w1" using setState_due [OF assms(1) _ w1] k st by (auto simp: states_def)
    from with_shared_connection_life [OF due_frame [OF this beginFirstRead_frame [OF w2]] cb]
    show ?thesis .
  qed
qed

lemma connectDestroyed_life:
  assumes "life_inv w" and "connectDestroyed env c w = Inr w'"
  shows "life_inv w'"
proof -
  obtain k where k: "conns w c = Some k" using assms(2) by (auto simp: connectDestroyed_def with_conn_Inr)
  show ?thesis
  proof (cases "c_loop k \<noteq> None \<and> c_state k = kConnected")
    case True
    with assms(2) k obtain w1 where w1: "setState c kDisconnected w = Inr w1"
      and cb: "with_shared c (invoke_connection env c) w1 = Inr w'"
      unfolding connectDestroyed_def with_conn_def by (auto simp: bindR_eq_Inr)
    have "due c False w1" using setState_due [OF assms(1) _ w1] k True by (auto simp: states_def)
    from with_shared_connection_life [OF this cb] show ?thesis .
  next
    case False
    with assms k show ?thesis
      by (auto simp: connectDestroyed_def with_conn_def bindR_eq_Inr split: option.splits)
  qed
qed

lemma forceCloseInLoop_life: "life_inv w \<Longrightarrow> forceCloseInLoop env c w = Inr w' \<Longrightarrow> life_inv w'"
  by (auto simp: forceCloseInLoop_def with_conn_Inr bindR_eq_Inr split: option.splits if_splits
      dest: handleClose_life)

lemma forceClose_life:
  assumes "life_inv w" and "forceClose env c w = Inr w'"
  shows "life_inv w'"
proof -
  obtain k where k: "conns w c = Some k" using assms(2) by (auto simp: forceClose_def with_conn_Inr)
  show ?thesis
  proof (cases "c_state k = kConnected \<or> c_state k = kDisconnecting")
    case True
    with assms(2) k obtain w1 l where w1: "setState c kDisconnecting w = Inr w1"
      and run: "runInLoop_shared l (ForceCloseInLoop c) c (forceCloseInLoop env c) w1 = Inr w'"
      by (auto simp: forceClose_def with_conn_def bindR_eq_Inr split: option.splits)
    have "life_inv w1" using setState_disconnecting [OF assms(1) _ _ w1] k True by (auto simp: states_def)
    from runInLoop_shared_life [OF run this forceCloseInLoop_life] show ?thesis .
  next
    case False
    with assms k show ?thesis by (auto simp: forceClose_def with_conn_def)
  qed
qed

lemma run_closure_life: "life_inv w \<Longrightarrow> run_closure env f w = Inr w' \<Longrightarrow> life_inv w'"
  by (cases f)
    (auto elim!: bind_release_life dest: task_cb intro: forceCloseInLoop_life connectEstablished_life
      connectDestroyed_life frame_life frame_dests)

lemma complete_life:
  assumes "life_inv w" and "complete env i error data w = Inr w'"
  shows "life_inv w'"
proof -
  have inv1: "life_inv (in_sock_thread s (drop_pending i w))" for s
    using assms(1) environment_frame same_life_inv by blast
  then have st: "life_inv w1"
    if "store_input c off data (in_sock_thread s (drop_pending i w)) = Inr w1" for s c off w1
    using store_input_frame [OF that] frame_life by blast
  with assms inv1 show ?thesis unfolding complete_def
    by (auto simp: bindR_eq_Inr Let_def split: if_splits io_op.splits
        dest!: st dest: readHandler_life writeHandler_life)
qed

lemma dispatch_life:
  assumes "life_inv w" and "dispatch (run_closure env) l i w = Inr w'"
  shows "life_inv w'"
proof -
  have "life_inv (w\<lparr>this_thread := t, loops := ls\<rparr>)" for t ls
    using assms(1) by (metis same_life_fields(1,2) same_life_inv)
  with assms show ?thesis
    by (auto simp: dispatch_def with_loop_Inr split: if_splits dest: run_closure_life)
qed

lemma conn_exec_life: "life_inv w \<Longrightarrow> conn_exec env ev w = Inr w' \<Longrightarrow> life_inv w'"
  by (cases ev)
    (auto simp: bindR_eq_Inr split: if_splits intro: frame_life same_life_fields frame_dests new_TcpConnection_life release_life
      connectEstablished_life connectDestroyed_life tc_shutdown_life forceClose_life dispatch_life complete_life)

end

sublocale conn_callbacks \<subseteq> life: inductive_invariant no_conns "conn_step env" life_inv
proof
  show "life_inv w" if "no_conns w" for w
    using that by (simp add: no_conns_def life_inv_def life_ok_def states_def)
  show "life_inv w'" if "life_inv w" and "conn_step env w w'" for w w'
    using that(2,1) by cases (rule conn_exec_life)
qed

context conn_callbacks
begin

lemma reachable_life: "reach no_conns (conn_step env) w \<Longrightarrow> life_inv w"
  by (rule life.reachable_inv)

end

section \<open>Users\<close>

text \<open>
  User callbacks that are sequences of calls of the public operations. \<open>scripted\<close> gives the
  callbacks number \<open>n\<close> the scripts with that number and leaves the rest of the environment as it is.
\<close>

datatype user_call =
    CallSend "byte list"
  | CallRetrieve size_t
  | CallRetrieveAll
  | CallStartRead
  | CallStopRead
  | CallShutdown
  | CallSetContext any
  | CallHold

fun run_call :: "'a conn_world_scheme conn_env \<Rightarrow> conn_id \<Rightarrow> user_call \<Rightarrow> 'a conn_world_scheme \<Rightarrow>
    'a conn_world_scheme result" where
  "run_call env c (CallSend message) w = send c message w"
| "run_call env c (CallRetrieve len) w =
     with_conn c (\<lambda>k. bindR (retrieve len (c_inputBuffer k)) (\<lambda>b.
       upd_conn c (\<lambda>k. k\<lparr>c_inputBuffer := b\<rparr>) w)) w"
| "run_call env c CallRetrieveAll w = defaultMessageCallback c w"
| "run_call env c CallStartRead w = startRead c w"
| "run_call env c CallStopRead w = stopRead c w"
| "run_call env c CallShutdown w = tc_shutdown env c w"
| "run_call env c (CallSetContext x) w = tc_setContext c x w"
| "run_call env c CallHold w = hold_conn c w"

fun run_calls :: "'a conn_world_scheme conn_env \<Rightarrow> conn_id \<Rightarrow> user_call list \<Rightarrow> 'a conn_world_scheme \<Rightarrow>
    'a conn_world_scheme result" where
  "run_calls env c [] w = Inr w"
| "run_calls env c (a # as) w = bindR (run_call env c a w) (run_calls env c as)"

definition scripted :: "(nat \<Rightarrow> user_call list) \<Rightarrow> 'a conn_world_scheme conn_env \<Rightarrow> 'a conn_world_scheme conn_env" where
  "scripted script env = env\<lparr>on_connection := \<lambda>n c. run_calls env c (script n),
     on_message := \<lambda>n c. run_calls env c (script n), on_write_complete := \<lambda>n c. run_calls env c (script n)\<rparr>"

lemma input_frame: "upd_conn c (\<lambda>k. k\<lparr>c_inputBuffer := b\<rparr>) w = Inr w' \<Longrightarrow> same_life w w'"
  by (erule upd_conn_frame) simp

lemma run_call_life: "life_inv w \<Longrightarrow> run_call env c a w = Inr w' \<Longrightarrow> life_inv w'"
  by (cases a)
    (auto simp: with_conn_Inr bindR_eq_Inr intro: frame_life frame_dests input_frame tc_shutdown_life)

lemma run_calls_life: "life_inv w \<Longrightarrow> run_calls env c as w = Inr w' \<Longrightarrow> life_inv w'"
  by (induction as arbitrary: w) (auto simp: bindR_eq_Inr dest: run_call_life)

lemma scripted_callbacks:
  assumes "\<And>c w w'. life_inv w \<Longrightarrow> on_close env c w = Inr w' \<Longrightarrow> life_inv w'"
    and "\<And>f w w'. life_inv w \<Longrightarrow> on_task env f w = Inr w' \<Longrightarrow> life_inv w'"
    and "\<And>n l w. life_inv w \<Longrightarrow> life_inv (on_thread_init env n l w)"
  shows "conn_callbacks (scripted script env)"
proof
  fix n c and w w' :: "'a conn_world_scheme"
  assume inv: "life_inv w"
  show "on_connection (scripted script env) n c w = Inr w' \<Longrightarrow> life_inv w'"
    and "on_message (scripted script env) n c w = Inr w' \<Longrightarrow> life_inv w'"
    and "on_write_complete (scripted script env) n c w = Inr w' \<Longrightarrow> life_inv w'"
    using run_calls_life [OF inv] by (simp_all add: scripted_def)
next
  fix c and w w' :: "'a conn_world_scheme"
  assume inv: "life_inv w"
  show "on_close (scripted script env) c w = Inr w' \<Longrightarrow> life_inv w'"
    using assms(1) [OF inv] by (simp add: scripted_def)
next
  fix f and w w' :: "'a conn_world_scheme"
  assume inv: "life_inv w"
  show "on_task (scripted script env) f w = Inr w' \<Longrightarrow> life_inv w'"
    using assms(2) [OF inv] by (simp add: scripted_def)
next
  show "life_inv (on_thread_init (scripted script env) n l w)" if "life_inv w" for n l w
    using assms(3) [OF that] by (simp add: scripted_def)
qed

text \<open>A single running loop in thread 1, and sockets whose calls succeed.\<close>

definition sample_endpoint :: endpoint where
  "sample_endpoint = \<lparr>ep_address = ''127.0.0.1'', ep_port = 80\<rparr>"

definition plain_env :: "'w conn_env" where
  "plain_env = \<lparr>sock_local = \<lambda>_. Inr sample_endpoint, sock_remote = \<lambda>_. Inr sample_endpoint,
     sock_option = \<lambda>_. Inr (), sock_shutdown = \<lambda>_. Inr (), on_connection = \<lambda>_ _. Inr, on_message = \<lambda>_ _. Inr,
     on_write_complete = \<lambda>_ _. Inr, on_close = \<lambda>_. Inr, on_task = \<lambda>_. Inr,
     on_thread_init = \<lambda>_ _ w. w\<rparr>"

definition start_world :: conn_world where
  "start_world =
     \<lparr>this_thread = 1, t_loopInThisThread = (\<lambda>_. None)(1 := Some 0),
      loops = [0 \<mapsto> \<lparr>el_threadId = 1, el_work = True, el_stopped = False, el_posted = [],
        el_timers = new_TimerQueue, el_context = None\<rparr>],
      conns = Map.empty, pending = [], sock_calls = [], sock_loop = [7 \<mapsto> 0],
      next_conn = 3, next_sock = 8, reported = (\<lambda>_. [])\<rparr>"

interpretation plain: conn_callbacks "scripted script plain_env" for script
  by (rule scripted_callbacks) (simp_all add: plain_env_def)

fun conn_run :: "'a conn_world_scheme conn_env \<Rightarrow> conn_event list \<Rightarrow> 'a conn_world_scheme \<Rightarrow>
    'a conn_world_scheme result" where
  "conn_run env [] w = Inr w"
| "conn_run env (a # as) w = bindR (conn_exec env a w) (conn_run env as)"

lemma conn_run_reach:
  "reach no_conns (conn_step env) w \<Longrightarrow> conn_run env as w = Inr w' \<Longrightarrow> reach no_conns (conn_step env) w'"
proof (induction as arbitrary: w)
  case (Cons a as)
  then obtain w1 where "conn_exec env a w = Inr w1" and "conn_run env as w1 = Inr w'"
    by (auto simp: bindR_eq_Inr)
  with Cons show ?case by (metis reach_step conn_step_exec)
qed simp

lemma start_world_reach: "reach no_conns (conn_step env) start_world"
  by (rule reach_init) (simp add: no_conns_def start_world_def)

lemmas conn_defs = with_conn_def upd_conn_def hold_conn_def release_conn_def destroy_TcpConnection_def
  with_shared_def runInLoop_shared_def runInLoop_def isInLoopThread_def assertInLoopThread_def with_loop_def
  queueInLoop_def upd_loop_def new_TcpConnection_def setConnectionCallback_def setMessageCallback_def
  setWriteCompleteCallback_def setCloseCallback_def tc_setContext_def setState_def
  defaultConnectionCallback_def report_def invoke_connection_def invoke_message_def invoke_write_complete_def
  invoke_close_def async_read_some_def beginFirstRead_def handleClose_def handleError_def readHandler_def
  writeHandler_def startRead_def startReadInLoop_def stopRead_def stopReadInLoop_def connectEstablished_def
  connectDestroyed_def shutdownInLoop_def tc_shutdown_def forceClose_def forceCloseInLoop_def
  in_sock_thread_def drop_pending_def complete_def dispatch_def connected_def disconnected_def

text \<open>The buffers a connection starts with.\<close>

definition fresh_buffer :: buffer where
  "fresh_buffer = \<lparr>buffer_vec = replicate 4104 0, readerIndex = 8, writerIndex = 8\<rparr>"

lemma new_Buffer_default: "new_Buffer kInitialSize = Inr fresh_buffer"
  by (simp add: new_Buffer_def vec_new_def kInitialSize_def kCheapPrepend_def max_size_def fresh_buffer_def
      readableBytes_def writableBytes_def prependableBytes_def vec_size_def)

lemma fresh_buffer_ok: "buf_ok fresh_buffer" "content fresh_buffer = []"
  by (simp_all add: fresh_buffer_def buf_ok_def content_def range_bytes_def max_size_def)

text \<open>A connection callback that changes nothing.\<close>

definition quiet :: "'w conn_env \<Rightarrow> conn_id \<Rightarrow> tcp_connection \<Rightarrow> bool" where
  "quiet u c k \<longleftrightarrow> c_connectionCallback k = Some DefaultCallback
     \<or> (\<exists>n. c_connectionCallback k = Some (UserCallback n) \<and> (\<forall>w. on_connection u n c w = Inr w))"

text \<open>The invariant, read as the lifecycle of one connection.\<close>

lemma life_inv_cases:
  assumes "life_inv w"
  shows "case conns w c of
      None \<Rightarrow> reported w c = [] \<or> reported w c = [True, False]
    | Some k \<Rightarrow> reported w c = (case c_state k of kConnecting \<Rightarrow> [] | kConnected \<Rightarrow> [True]
        | kDisconnecting \<Rightarrow> [True] | kDisconnected \<Rightarrow> [True, False])"
proof -
  have "life_at (map_option c_state (conns w c)) (reported w c)"
    using assms by (simp add: life_inv_def life_ok_def states_def)
  then show ?thesis by (cases "conns w c") (auto split: conn_state.splits)
qed

section \<open>Properties\<close>

text \<open>
  C2: the lifecycle of a connection, for any sequence of calls, dispatched function objects and
  completed operations, with callbacks that keep the connections consistent. The connection callback is
  called with \<open>connected()\<close> true when the connection is established and once more with false when
  it goes down, in this order and never again; between the two calls the state is \<open>kConnected\<close> or
  \<open>kDisconnecting\<close>, afterwards \<open>kDisconnected\<close>; and a connection object that is gone had both calls.
\<close>

theorem connection_lifecycle:
  assumes "conn_callbacks env" and "reach no_conns (conn_step env) w"
  shows "case conns w c of
      None \<Rightarrow> reported w c = [] \<or> reported w c = [True, False]
    | Some k \<Rightarrow> reported w c = (case c_state k of kConnecting \<Rightarrow> [] | kConnected \<Rightarrow> [True]
        | kDisconnecting \<Rightarrow> [True] | kDisconnected \<Rightarrow> [True, False])"
  by (rule life_inv_cases [OF conn_callbacks.reachable_life [OF assms]])

text \<open>
  A connection whose user notes a context and shuts the sending side down at once, established and
  then closed by the peer.
\<close>

definition brief_user :: "conn_world conn_env" where
  "brief_user = scripted (\<lambda>_. [CallSetContext (Some 1), CallShutdown]) plain_env"

definition brief_events :: "conn_event list" where
  "brief_events = [New (Some 0) ''c'' 7, SetConnectionCb 3 (Some (UserCallback 0)), SetCloseCb 3 True,
     Established 3]"

theorem connection_lifecycle_witness:
  "\<exists>w k. conn_run brief_user (brief_events @ [Complete 0 Eof []]) start_world = Inr w \<and> conns w 3 = Some k
     \<and> c_state k = kDisconnected \<and> reported w 3 = [True, False]"
proof -
  have "(case conn_run brief_user (brief_events @ [Complete 0 Eof []]) start_world of Inl e \<Rightarrow> False
     | Inr w \<Rightarrow> map_option c_state (conns w 3) = Some kDisconnected)"
    by (simp add: brief_user_def brief_events_def start_world_def scripted_def plain_env_def new_Buffer_default conn_defs)
  then obtain w k where w: "conn_run brief_user (brief_events @ [Complete 0 Eof []]) start_world = Inr w"
    "conns w 3 = Some k" "c_state k = kDisconnected"
    by (auto split: sum.splits)
  have "conn_callbacks brief_user" unfolding brief_user_def by (rule plain.conn_callbacks_axioms)
  from connection_lifecycle [OF this conn_run_reach [OF start_world_reach w(1)], of 3] w show ?thesis
    by auto
qed

end
