(* ===== verification/Keeps.thy ===== *)
theory Keeps
  imports TcpConnection
begin

text \<open>
  A calculus for invariants of programs in the result monad. \<open>keeps I f\<close> says that a run of \<open>f\<close> that does
  not fail keeps the invariant \<open>I h\<close>, for every value of the parameter \<open>h\<close>. There is one rule per construct that
  the operations are written with; the rules for the operations themselves join the same collection.
\<close>

definition keeps :: "('h \<Rightarrow> 'w \<Rightarrow> bool) \<Rightarrow> ('w \<Rightarrow> 'w result) \<Rightarrow> bool" where
  "keeps I f \<longleftrightarrow> (\<forall>h w w'. I h w \<longrightarrow> f w = Inr w' \<longrightarrow> I h w')"

lemma keepsI: "(\<And>h w w'. I h w \<Longrightarrow> f w = Inr w' \<Longrightarrow> I h w') \<Longrightarrow> keeps I f"
  by (simp add: keeps_def)

lemma keepsD: "keeps I f \<Longrightarrow> I h w \<Longrightarrow> f w = Inr w' \<Longrightarrow> I h w'"
  by (simp add: keeps_def)

named_theorems keeps_rules \<open>preservation, by the structure of the program\<close>

lemma keeps_return [keeps_rules]: "keeps I Inr" "keeps I (\<lambda>w. Inr w)"
  by (simp_all add: keeps_def)

lemma keeps_error [keeps_rules]: "keeps I (\<lambda>w. Inl e)"
  by (simp add: keeps_def)

lemma keeps_bind [keeps_rules]:
  assumes "keeps I f" and "keeps I g"
  shows "keeps I (\<lambda>w. bindR (f w) g)"
proof (rule keepsI)
  fix h w w' assume "I h w" and "bindR (f w) g = Inr w'"
  then obtain w1 where "f w = Inr w1" and "g w1 = Inr w'" by (auto simp: bindR_eq_Inr)
  with \<open>I h w\<close> show "I h w'" using keepsD [OF assms(1)] keepsD [OF assms(2)] by blast
qed

lemma keeps_query [keeps_rules]:
  "(\<And>x. keeps I (\<lambda>w. g x w)) \<Longrightarrow> keeps I (\<lambda>w. bindR (q w) (\<lambda>x. g x w))"
  by (rule keepsI) (metis (no_types, lifting) bindR_eq_Inr keepsD)

lemma keeps_assert [keeps_rules]: "keeps I f \<Longrightarrow> keeps I (\<lambda>w. assertR (b w) (f w))"
  by (rule keepsI) (metis assertR_eq_Inr keepsD)

lemma keeps_if [keeps_rules]: "keeps I f \<Longrightarrow> keeps I g \<Longrightarrow> keeps I (\<lambda>w. if b w then f w else g w)"
  by (rule keepsI) (metis keepsD)

lemma keeps_option [keeps_rules]:
  "keeps I f \<Longrightarrow> (\<And>y. keeps I (\<lambda>w. g y w)) \<Longrightarrow> keeps I (\<lambda>w. case x w of None \<Rightarrow> f w | Some y \<Rightarrow> g y w)"
  by (rule keepsI) (auto split: option.splits intro: keepsD)

lemma keeps_callback [keeps_rules]:
  "keeps I f \<Longrightarrow> (\<And>n. keeps I (\<lambda>w. g n w)) \<Longrightarrow>
   keeps I (\<lambda>w. case x w of DefaultCallback \<Rightarrow> f w | UserCallback n \<Rightarrow> g n w)"
  by (rule keepsI) (auto split: callback.splits intro: keepsD)

lemma keeps_with_conn [keeps_rules]:
  "(\<And>k. keeps I (\<lambda>w. f k w)) \<Longrightarrow> keeps I (\<lambda>w. with_conn c (\<lambda>k. f k w) w)"
  by (rule keepsI) (metis (no_types, lifting) with_conn_Inr keepsD)

end
