(* ===== verification/Ownership.thy ===== *)
theory Ownership
  imports Keeps
begin

text \<open>
  Who owns a connection. The reference count of a connection object is the number of its owners: the
  function objects in the queues of the loops that bind a \<open>shared_ptr\<close> to it (\<open>queued_owners\<close>), the
  members of other objects (\<open>members\<close>, a parameter that the server and the client supply), and the
  pointers that local variables and the user keep (\<open>H\<close>). Every operation keeps this balance, and an
  object goes away exactly when the last owner does.

  The calculus of \<open>Keeps\<close> carries the preservation through the operations; \<open>H\<close> is quantified inside it,
  which lets a called function work under the pointers that its callers hold.
\<close>

section \<open>The balance of owners\<close>

definition queued :: "conn_id \<Rightarrow> event_loop \<Rightarrow> nat" where
  "queued c e = length (filter (\<lambda>f. closure_owns f = Some c) (el_posted e))"

definition queued_owners :: "conn_id \<Rightarrow> 'a loop_world_scheme \<Rightarrow> nat" where
  "queued_owners c w = (\<Sum>l\<in>dom (loops w). queued c (the (loops w l)))"

fun balanced :: "nat option \<Rightarrow> int \<Rightarrow> bool" where
  "balanced None n \<longleftrightarrow> n = 0"
| "balanced (Some r) n \<longleftrightarrow> 1 \<le> r \<and> int r = n"

definition own_inv :: "(conn_id \<Rightarrow> 'a conn_world_scheme \<Rightarrow> int) \<Rightarrow> ('a conn_world_scheme \<Rightarrow> bool) \<Rightarrow>
    (conn_id \<Rightarrow> int) \<Rightarrow> 'a conn_world_scheme \<Rightarrow> bool" where
  "own_inv members ok H w \<longleftrightarrow> finite (dom (loops w)) \<and> ok w \<and> (\<forall>c\<ge>next_conn w. conns w c = None)
     \<and> (\<forall>c. balanced (map_option c_refs (conns w c)) (int (queued_owners c w) + members c w + H c))"

text \<open>The pointer that a function object binds.\<close>

definition bound :: "closure \<Rightarrow> (conn_id \<Rightarrow> int) \<Rightarrow> conn_id \<Rightarrow> int" where
  "bound f H = (case closure_owns f of None \<Rightarrow> H | Some c \<Rightarrow> H(c := H c + 1))"

lemma queued_append [simp]:
  "queued c (e\<lparr>el_posted := xs @ [f]\<rparr>) = queued c (e\<lparr>el_posted := xs\<rparr>) + (if closure_owns f = Some c then 1 else 0)"
  by (simp add: queued_def)

lemma queued_posted [simp]: "queued c (e\<lparr>el_posted := el_posted e\<rparr>) = queued c e"
  by (simp add: queued_def)

lemma queued_take_drop:
  assumes "i < length (el_posted e)"
  shows "queued c e = queued c (e\<lparr>el_posted := take i (el_posted e) @ drop (Suc i) (el_posted e)\<rparr>)
    + (if closure_owns (el_posted e ! i) = Some c then 1 else 0)"
proof -
  have "filter p (el_posted e) = filter p (take i (el_posted e)) @ filter p (el_posted e ! i # drop (Suc i) (el_posted e))"
    for p
    using assms by (metis filter_append id_take_nth_drop)
  then show ?thesis by (simp add: queued_def)
qed

lemma queued_owners_upd:
  assumes "finite (dom (loops w))" and "loops w l = Some e"
  shows "int (queued_owners c (w\<lparr>loops := (loops w)(l \<mapsto> e')\<rparr>)) = int (queued_owners c w) - int (queued c e) + int (queued c e')"
proof -
  have l: "l \<in> dom (loops w)" using assms(2) by auto
  have "queued_owners c w = queued c e + (\<Sum>x\<in>dom (loops w) - {l}. queued c (the (loops w x)))"
    using sum.remove [OF assms(1) l, of "\<lambda>x. queued c (the (loops w x))"] assms(2) by (simp add: queued_owners_def)
  moreover have "queued_owners c (w\<lparr>loops := (loops w)(l \<mapsto> e')\<rparr>)
      = queued c e' + (\<Sum>x\<in>dom (loops w) - {l}. queued c (the (loops w x)))"
  proof -
    have "(\<Sum>x\<in>dom (loops w) - {l}. queued c (the (((loops w)(l \<mapsto> e')) x)))
        = (\<Sum>x\<in>dom (loops w) - {l}. queued c (the (loops w x)))"
      by (intro sum.cong) auto
    then show ?thesis
      using sum.remove [OF assms(1) l, of "\<lambda>x. queued c (the (((loops w)(l \<mapsto> e')) x))"] l
      by (simp add: queued_owners_def insert_absorb)
  qed
  ultimately show ?thesis by simp
qed

lemma queued_owners_new:
  assumes "finite (dom (loops w))" and "loops w l = None" and "el_posted e = []"
  shows "queued_owners c (w\<lparr>loops := (loops w)(l \<mapsto> e)\<rparr>) = queued_owners c w"
proof -
  have l: "l \<notin> dom (loops w)" using assms(2) by auto
  have "(\<Sum>x\<in>dom (loops w). queued c (the (((loops w)(l \<mapsto> e)) x))) = (\<Sum>x\<in>dom (loops w). queued c (the (loops w x)))"
    using l by (intro sum.cong) auto
  then show ?thesis using assms(1,3) l by (simp add: queued_owners_def queued_def)
qed

lemma own_inv_cong: "own_inv members ok H w \<Longrightarrow> (\<And>c. H' c = H c) \<Longrightarrow> own_inv members ok H' w"
  by (simp add: own_inv_def)

text \<open>Steps that change no reference count and no queue.\<close>

lemma own_inv_frame:
  assumes "own_inv members ok H w" and "\<And>c. members c w' = members c w" and "ok w'"
    and "\<And>c. map_option c_refs (conns w' c) = map_option c_refs (conns w c)" and "next_conn w' = next_conn w"
    and "dom (loops w') = dom (loops w)" and "\<And>l c. map_option (queued c) (loops w' l) = map_option (queued c) (loops w l)"
  shows "own_inv members ok H w'"
proof -
  have "queued c (the (loops w' l)) = queued c (the (loops w l))" if "l \<in> dom (loops w)" for c l
    using assms(6,7) that by (metis domIff option.map_sel)
  then have "queued_owners c w' = queued_owners c w" for c
    unfolding queued_owners_def using assms(6) by (intro sum.cong) auto
  moreover have "conns w' c = None \<longleftrightarrow> conns w c = None" for c
    using assms(4) by (metis map_option_is_None)
  ultimately show ?thesis using assms(1-6) by (simp add: own_inv_def)
qed

text \<open>A member pointer that moves into the hands of the running code, or back.\<close>

lemma own_inv_members:
  assumes "own_inv members ok H w" and "ok w'" and "conns w' = conns w" and "next_conn w' = next_conn w"
    and "loops w' = loops w" and "\<And>c. H' c = H c + members c w - members c w'"
  shows "own_inv members ok H' w'"
proof -
  have "queued_owners c w' = queued_owners c w" for c by (simp add: queued_owners_def assms(5))
  then have "int (queued_owners c w') + members c w' + H' c = int (queued_owners c w) + members c w + H c" for c
    using assms(6) by simp
  with assms(1-5) show ?thesis by (simp add: own_inv_def)
qed

text \<open>
  The owners that are members of objects of higher layers, and what has to hold of those objects besides.
  Both depend only on the part of the world that the higher layers add.
\<close>

locale owner_view =
  fixes members :: "conn_id \<Rightarrow> 'a conn_world_scheme \<Rightarrow> int"
    and ok :: "'a conn_world_scheme \<Rightarrow> bool"
  assumes members_more: "conn_world.more w = conn_world.more w' \<Longrightarrow> members c w = members c w'"
    and ok_more: "conn_world.more w = conn_world.more w' \<Longrightarrow> ok w \<Longrightarrow> ok w'"
begin

lemma own_keepsD: "keeps (own_inv members ok) f \<Longrightarrow> own_inv members ok H w \<Longrightarrow> f w = Inr w' \<Longrightarrow> own_inv members ok H w'"
  unfolding keeps_def by blast

lemma own_frame:
  assumes "own_inv members ok H w" and "conn_world.more w' = conn_world.more w"
    and "\<And>c. map_option c_refs (conns w' c) = map_option c_refs (conns w c)" and "next_conn w' = next_conn w"
    and "dom (loops w') = dom (loops w)" and "\<And>l c. map_option (queued c) (loops w' l) = map_option (queued c) (loops w l)"
  shows "own_inv members ok H w'"
  by (rule own_inv_frame [OF assms(1) members_more [OF assms(2)] _ assms(3-6)])
    (use assms(1) ok_more [OF assms(2) [symmetric]] in \<open>simp add: own_inv_def\<close>)

lemma keeps_frame:
  assumes "\<And>w w'. f w = Inr w' \<Longrightarrow> conn_world.more w' = conn_world.more w
      \<and> (\<forall>c. map_option c_refs (conns w' c) = map_option c_refs (conns w c)) \<and> next_conn w' = next_conn w
      \<and> dom (loops w') = dom (loops w) \<and> (\<forall>l c. map_option (queued c) (loops w' l) = map_option (queued c) (loops w l))"
  shows "keeps (own_inv members ok) f"
proof (rule keepsI)
  fix H w w' assume "own_inv members ok H w" and "f w = Inr w'"
  with assms [OF this(2)] show "own_inv members ok H w'" by (blast intro: own_frame)
qed

lemma upd_conn_keeps [keeps_rules]: "(\<And>k. c_refs (f k) = c_refs k) \<Longrightarrow> keeps (own_inv members ok) (upd_conn c f)"
  by (rule keeps_frame) (auto simp: upd_conn_Inr)

lemma setters_keep [keeps_rules]:
  "keeps (own_inv members ok) (setConnectionCallback c cb)" "keeps (own_inv members ok) (setMessageCallback c cb)"
  "keeps (own_inv members ok) (setWriteCompleteCallback c cb)" "keeps (own_inv members ok) (setCloseCallback c b)"
  "keeps (own_inv members ok) (tc_setContext c x)" "keeps (own_inv members ok) (setState c s)"
  "keeps (own_inv members ok) (defaultMessageCallback c)"
  unfolding setConnectionCallback_def setMessageCallback_def setWriteCompleteCallback_def setCloseCallback_def
    tc_setContext_def setState_def defaultMessageCallback_def
  by (rule upd_conn_keeps, simp)+

lemma own_fields:
  assumes "own_inv members ok H w"
  shows "own_inv members ok H (w\<lparr>this_thread := t\<rparr>)" "own_inv members ok H (w\<lparr>pending := p\<rparr>)"
    "own_inv members ok H (w\<lparr>sock_calls := sc\<rparr>)" "own_inv members ok H (w\<lparr>reported := r\<rparr>)"
    "own_inv members ok H (w\<lparr>sock_loop := sl\<rparr>)" "own_inv members ok H (w\<lparr>next_sock := ns\<rparr>)"
  by (rule own_frame [OF assms]; simp)+

lemma async_read_some_keeps [keeps_rules]: "keeps (own_inv members ok) (async_read_some c)"
  by (rule keeps_frame) (auto simp: async_read_some_def with_conn_Inr)

lemma beginFirstRead_keeps [keeps_rules]: "keeps (own_inv members ok) (beginFirstRead c)"
  by (simp add: beginFirstRead_def [abs_def] async_read_some_keeps)

lemma send_keeps [keeps_rules]: "keeps (own_inv members ok) (send c m)"
  by (rule keeps_frame) (auto simp: send_def with_conn_Inr bindR_eq_Inr)

lemma store_input_keeps [keeps_rules]: "keeps (own_inv members ok) (store_input c off data)"
  unfolding store_input_def by (rule keeps_rules | simp)+

lemma shutdownInLoop_keeps [keeps_rules]: "keeps (own_inv members ok) (shutdownInLoop env c)"
  by (rule keeps_frame) (auto simp: shutdownInLoop_def with_conn_Inr bindR_eq_Inr split: option.splits)

lemma read_again_keeps [keeps_rules]: "keeps (own_inv members ok) (read_again c n)"
  unfolding read_again_def by (rule keeps_rules | simp)+

lemma startReadInLoop_keeps [keeps_rules]: "keeps (own_inv members ok) (startReadInLoop c)"
  unfolding startReadInLoop_def by (rule keeps_rules | simp)+

lemma stopReadInLoop_keeps [keeps_rules]: "keeps (own_inv members ok) (stopReadInLoop c)"
  unfolding stopReadInLoop_def by (rule keeps_rules | simp)+

lemma el_loop_keeps [keeps_rules]: "keeps (own_inv members ok) (el_loop l)"
  by (rule keeps_frame) (auto simp: el_loop_def upd_loop_def with_loop_Inr queued_def split: if_splits)

text \<open>A new loop has an empty queue; its address is not that of another loop.\<close>

lemma new_EventLoop_own:
  assumes "own_inv members ok H w" and "loops w l = None"
  shows "own_inv members ok H (new_EventLoop l w)"
proof -
  let ?w = "new_EventLoop l w"
  define e where "e = \<lparr>el_threadId = this_thread w, el_work = False, el_stopped = False, el_posted = [],
    el_timers = new_TimerQueue, el_context = None\<rparr>"
  have e: "loops ?w = (loops w)(l \<mapsto> e)" "el_posted e = []"
    by (simp_all add: new_EventLoop_def Let_def e_def)
  have more: "conn_world.more ?w = conn_world.more w" "conns ?w = conns w" "next_conn ?w = next_conn w"
    by (simp_all add: new_EventLoop_def Let_def)
  have "queued_owners c ?w = queued_owners c (w\<lparr>loops := (loops w)(l \<mapsto> e)\<rparr>)" for c
    by (simp add: queued_owners_def e)
  then have "queued_owners c ?w = queued_owners c w" for c
    using queued_owners_new [OF _ assms(2) e(2)] assms(1) by (simp add: own_inv_def)
  then show ?thesis
    using assms(1) e more members_more [OF more(1)] ok_more [OF more(1) [symmetric]] by (simp add: own_inv_def)
qed

subsection \<open>Pointers made and dropped\<close>

lemma hold_own:
  assumes "own_inv members ok H w" and "hold_conn c w = Inr w'"
  shows "own_inv members ok (H(c := H c + 1)) w'"
proof -
  obtain k where k: "conns w c = Some k" and w': "w' = w\<lparr>conns := (conns w)(c \<mapsto> k\<lparr>c_refs := c_refs k + 1\<rparr>)\<rparr>"
    using assms(2) by (auto simp: hold_conn_def upd_conn_Inr)
  have m: "members c' w' = members c' w" "ok w'" for c'
    using assms(1) members_more [of w' w] ok_more [of w w'] by (auto simp: w' own_inv_def)
  have b: "balanced (Some (c_refs k)) (int (queued_owners c w) + members c w + H c)"
    using assms(1) k by (metis own_inv_def option.simps(9))
  show ?thesis
    using assms(1) m b k unfolding own_inv_def w' by (auto simp: queued_owners_def)
qed

lemma release_own:
  assumes "own_inv members ok H w" and "release_conn c w = Inr w'"
  shows "own_inv members ok (H(c := H c - 1)) w'"
proof -
  obtain k where k: "conns w c = Some k"
    and w': "w' = w\<lparr>conns := (conns w)(c := if c_refs k \<le> 1 then None else Some (k\<lparr>c_refs := c_refs k - 1\<rparr>))\<rparr>"
    using assms(2) by (auto simp: release_conn_def destroy_TcpConnection_def with_conn_Inr upd_conn_Inr assertR_eq_Inr
        split: if_splits)
  have m: "members c' w' = members c' w" "ok w'" for c'
    using assms(1) members_more [of w' w] ok_more [of w w'] by (auto simp: w' own_inv_def)
  have b: "balanced (Some (c_refs k)) (int (queued_owners c w) + members c w + H c)"
    using assms(1) k by (metis own_inv_def option.simps(9))
  show ?thesis
    using assms(1) m b k unfolding own_inv_def w' by (auto simp: queued_owners_def)
qed

lemma with_shared_keeps [keeps_rules]:
  assumes "keeps (own_inv members ok) f"
  shows "keeps (own_inv members ok) (with_shared c f)"
proof (rule keepsI)
  fix H w w' assume inv: "own_inv members ok H w" and "with_shared c f w = Inr w'"
  then obtain w1 w2 where "hold_conn c w = Inr w1" "f w1 = Inr w2" "release_conn c w2 = Inr w'"
    by (auto simp: with_shared_def bindR_eq_Inr)
  from release_own [OF own_keepsD [OF assms hold_own [OF inv this(1)] this(2)] this(3)]
  show "own_inv members ok H w'" by simp
qed

lemma queue_own:
  assumes "own_inv members ok (bound f H) w" and "queueInLoop l f w = Inr w'"
  shows "own_inv members ok H w'"
proof -
  obtain e where e: "loops w l = Some e" and w': "w' = w\<lparr>loops := (loops w)(l \<mapsto> e\<lparr>el_posted := el_posted e @ [f]\<rparr>)\<rparr>"
    using assms(2) by (auto simp: queueInLoop_def upd_loop_def with_loop_Inr)
  have m: "members c w' = members c w" "ok w'" for c
    using assms(1) members_more [of w' w] ok_more [of w w'] by (auto simp: w' own_inv_def)
  have "finite (dom (loops w))" using assms(1) by (simp add: own_inv_def)
  from queued_owners_upd [OF this e]
  have q: "int (queued_owners c w') = int (queued_owners c w) + (if closure_owns f = Some c then 1 else 0)" for c
    by (simp add: w')
  have "int (queued_owners c w') + members c w' + H c = int (queued_owners c w) + members c w + bound f H c" for c
    using q [of c] m(1) by (simp add: bound_def split: option.splits)
  then show ?thesis
    using assms(1) m(2) e unfolding own_inv_def by (auto simp: w')
qed

lemma queueInLoop_keeps [keeps_rules]:
  assumes "closure_owns f = None"
  shows "keeps (own_inv members ok) (queueInLoop l f)"
proof (rule keepsI)
  fix H w w' assume "own_inv members ok H w" and "queueInLoop l f w = Inr w'"
  with queue_own [of f H w l w'] assms show "own_inv members ok H w'" by (simp add: bound_def)
qed

lemma runInLoop_keeps [keeps_rules]:
  assumes "keeps (own_inv members ok) call" and "closure_owns f = None"
  shows "keeps (own_inv members ok) (runInLoop l f call)"
proof (rule keepsI)
  fix H w w' assume "own_inv members ok H w" and "runInLoop l f call w = Inr w'"
  from this(2,1) show "own_inv members ok H w'"
    by (cases rule: runInLoop_cases) (auto intro: own_keepsD assms queueInLoop_keeps)
qed

lemma runInLoop_shared_keeps [keeps_rules]:
  assumes "keeps (own_inv members ok) call" and "closure_owns f = Some c"
  shows "keeps (own_inv members ok) (runInLoop_shared l f c call)"
proof (rule keepsI)
  fix H w w' assume inv: "own_inv members ok H w" and "runInLoop_shared l f c call w = Inr w'"
  then obtain w1 where h: "hold_conn c w = Inr w1"
    and run: "runInLoop l f (\<lambda>w1. bindR (call w1) (release_conn c)) w1 = Inr w'"
    by (auto simp: runInLoop_shared_def bindR_eq_Inr)
  note inv1 = hold_own [OF inv h]
  from run show "own_inv members ok H w'"
  proof (cases rule: runInLoop_cases)
    case 1
    then obtain w2 where "call w1 = Inr w2" "release_conn c w2 = Inr w'" by (auto simp: bindR_eq_Inr)
    from release_own [OF own_keepsD [OF assms(1) inv1 this(1)] this(2)] show ?thesis by simp
  next
    case 2
    then show ?thesis using queue_own [of f H w1 l w'] inv1 assms(2) by (simp add: bound_def)
  qed
qed

lemma startRead_keeps [keeps_rules]: "keeps (own_inv members ok) (startRead c)"
  unfolding startRead_def by (rule keeps_rules | simp)+

lemma stopRead_keeps [keeps_rules]: "keeps (own_inv members ok) (stopRead c)"
  unfolding stopRead_def by (rule keeps_rules | simp)+

lemma tc_shutdown_keeps [keeps_rules]: "keeps (own_inv members ok) (tc_shutdown env c)"
  unfolding tc_shutdown_def by (rule keeps_rules | simp)+

text \<open>A function object that a loop calls gives up the pointer it binds.\<close>

lemma bind_release_own:
  assumes "keeps (own_inv members ok) f" and "own_inv members ok (H(c := H c + 1)) w"
    and "bindR (f w) (release_conn c) = Inr w'"
  shows "own_inv members ok H w'"
proof -
  obtain w1 where "f w = Inr w1" "release_conn c w1 = Inr w'" using assms(3) by (auto simp: bindR_eq_Inr)
  from release_own [OF own_keepsD [OF assms(1,2) this(1)] this(2)] show ?thesis by simp
qed

text \<open>The constructor: the new pointer belongs to the caller.\<close>

lemma new_conn_own:
  assumes "own_inv members ok H w" and "new_TcpConnection env l nm s w = Inr (c, w')"
  shows "own_inv members ok (H(c := H c + 1)) w'"
proof -
  obtain k sc where c: "c = next_conn w"
    and w': "w' = w\<lparr>conns := (conns w)(c \<mapsto> k), sock_calls := sc, next_conn := next_conn w + 1\<rparr>" "c_refs k = 1"
    using assms(2) by (auto simp: new_TcpConnection_def bindR_eq_Inr)
  have m: "members c' w' = members c' w" "ok w'" for c'
    using assms(1) members_more [of w' w] ok_more [of w w'] by (auto simp: w' own_inv_def)
  have "conns w c = None" using assms(1) by (simp add: own_inv_def c)
  then have "int (queued_owners c w) + members c w + H c = 0"
    using assms(1) by (metis own_inv_def balanced.simps(1) option.simps(8))
  with assms(1) m w' c show ?thesis by (auto simp: own_inv_def queued_owners_def)
qed

end

section \<open>Connections\<close>

text \<open>A connection callback that keeps the balance.\<close>

locale own_connection = owner_view members ok
  for members :: "conn_id \<Rightarrow> 'a conn_world_scheme \<Rightarrow> int" and ok +
  fixes env :: "'a conn_world_scheme conn_env"
  assumes connection_keeps [keeps_rules]: "keeps (own_inv members ok) (on_connection env n c)"
begin

lemma report_keeps [keeps_rules]:
  assumes "keeps (own_inv members ok) f"
  shows "keeps (own_inv members ok) (\<lambda>w. f (report c k w))"
  by (rule keepsI) (auto simp: report_def intro: own_keepsD [OF assms] own_fields(4))

lemma defaultConnectionCallback_keeps [keeps_rules]: "keeps (own_inv members ok) (defaultConnectionCallback c)"
  unfolding defaultConnectionCallback_def by (rule keeps_rules)+

lemma invoke_connection_keeps [keeps_rules]: "keeps (own_inv members ok) (invoke_connection env c)"
  unfolding invoke_connection_def by (rule keeps_rules)+

lemma connectEstablished_keeps [keeps_rules]: "keeps (own_inv members ok) (connectEstablished env c)"
  unfolding connectEstablished_def by (rule keeps_rules | simp)+

lemma connectDestroyed_keeps [keeps_rules]: "keeps (own_inv members ok) (connectDestroyed env c)"
  unfolding connectDestroyed_def by (rule keeps_rules | simp)+

end

text \<open>
  The contract of all callbacks: they keep the balance, so they keep no pointer that is not accounted for,
  and the function object for \<open>removeConnectionInLoop\<close> gives its pointer up.
\<close>

locale own_callbacks = own_connection +
  assumes message_keeps [keeps_rules]: "keeps (own_inv members ok) (on_message env n c)"
    and write_complete_keeps [keeps_rules]: "keeps (own_inv members ok) (on_write_complete env n c)"
    and close_keeps [keeps_rules]: "keeps (own_inv members ok) (on_close env c)"
    and task_keeps: "closure_owns f = None \<Longrightarrow> keeps (own_inv members ok) (on_task env f)"
    and remove_gives_up: "own_inv members ok (H(c := H c + 1)) w \<Longrightarrow>
      on_task env (RemoveConnectionInLoop c) w = Inr w' \<Longrightarrow> own_inv members ok H w'"
begin

lemma invoke_message_keeps [keeps_rules]: "keeps (own_inv members ok) (invoke_message env cb c)"
  by (cases cb) (simp_all add: invoke_message_def keeps_rules)

lemma invoke_write_complete_keeps [keeps_rules]: "keeps (own_inv members ok) (invoke_write_complete env cb c)"
  by (cases cb) (simp_all add: invoke_write_complete_def keeps_rules)

lemma invoke_close_keeps [keeps_rules]: "keeps (own_inv members ok) (invoke_close env c)"
  unfolding invoke_close_def by (rule keeps_rules | simp)+

lemma handleClose_keeps [keeps_rules]: "keeps (own_inv members ok) (handleClose env c)"
  unfolding handleClose_def by (rule keeps_rules | simp)+

lemma handleError_keeps [keeps_rules]: "keeps (own_inv members ok) (handleError env c)"
  unfolding handleError_def by (rule keeps_rules)+

lemma readHandler_keeps [keeps_rules]: "keeps (own_inv members ok) (readHandler env c error n)"
  unfolding readHandler_def by (cases error) (simp; (rule keeps_rules | simp)+)+

lemma writeHandler_keeps [keeps_rules]: "keeps (own_inv members ok) (writeHandler env c error n)"
  unfolding writeHandler_def by (rule keeps_rules | simp)+

lemma forceCloseInLoop_keeps [keeps_rules]: "keeps (own_inv members ok) (forceCloseInLoop env c)"
  unfolding forceCloseInLoop_def by (rule keeps_rules | simp)+

lemma forceClose_keeps [keeps_rules]: "keeps (own_inv members ok) (forceClose env c)"
  unfolding forceClose_def by (rule keeps_rules | simp)+

lemma run_closure_own:
  assumes inv: "own_inv members ok (bound f H) w" and run: "run_closure env f w = Inr w'"
  shows "own_inv members ok H w'"
proof (cases "closure_owns f")
  case None
  then have b: "own_inv members ok H w" using inv by (simp add: bound_def)
  note task = own_keepsD [OF task_keeps [OF None] b]
  show ?thesis
    by (cases f) (use None run b task in \<open>auto dest: own_keepsD [OF startReadInLoop_keeps]
        own_keepsD [OF stopReadInLoop_keeps] own_keepsD [OF shutdownInLoop_keeps]\<close>)
next
  case (Some c)
  then have b: "own_inv members ok (H(c := H c + 1)) w" using inv by (simp add: bound_def)
  show ?thesis
  proof (cases f)
    case (ForceCloseInLoop d)
    with Some run b show ?thesis by (auto intro: bind_release_own [OF forceCloseInLoop_keeps])
  next
    case (ConnectEstablished d)
    with Some run b show ?thesis by (auto intro: bind_release_own [OF connectEstablished_keeps])
  next
    case (ConnectDestroyed d)
    with Some run b show ?thesis by (auto intro: bind_release_own [OF connectDestroyed_keeps])
  next
    case (SetCloseCallback d)
    with Some run b show ?thesis by (auto intro: bind_release_own [OF setters_keep(4)])
  next
    case (RemoveConnectionInLoop d)
    with Some run b show ?thesis by (auto intro: remove_gives_up)
  qed (use Some in simp_all)
qed

lemma dispatch_keeps [keeps_rules]: "keeps (own_inv members ok) (dispatch (run_closure env) l i)"
proof (rule keepsI)
  fix H w w' assume inv: "own_inv members ok H w" and "dispatch (run_closure env) l i w = Inr w'"
  then obtain e where e: "loops w l = Some e" and r: "(if el_work e \<and> \<not> el_stopped e \<and> i < length (el_posted e)
      then run_closure env (el_posted e ! i) (w\<lparr>this_thread := el_threadId e, loops := (loops w)(l \<mapsto>
        e\<lparr>el_posted := take i (el_posted e) @ drop (Suc i) (el_posted e)\<rparr>)\<rparr>)
      else Inr w) = Inr w'"
    by (auto simp: dispatch_def with_loop_Inr)
  show "own_inv members ok H w'"
  proof (cases "el_work e \<and> \<not> el_stopped e \<and> i < length (el_posted e)")
    case True
    define e' where "e' = e\<lparr>el_posted := take i (el_posted e) @ drop (Suc i) (el_posted e)\<rparr>"
    define w1 where "w1 = w\<lparr>this_thread := el_threadId e, loops := (loops w)(l \<mapsto> e')\<rparr>"
    have m: "members c w1 = members c w" "ok w1" for c
      using inv members_more [of w1 w] ok_more [of w w1] by (auto simp: w1_def own_inv_def)
    have fin: "finite (dom (loops w))" using inv by (simp add: own_inv_def)
    have "int (queued_owners c w1) + members c w1 + bound (el_posted e ! i) H c
        = int (queued_owners c w) + members c w + H c" for c
    proof -
      have "queued_owners c w1 = queued_owners c (w\<lparr>loops := (loops w)(l \<mapsto> e')\<rparr>)"
        by (simp add: w1_def queued_owners_def)
      then show ?thesis
        using queued_owners_upd [OF fin e, of c e'] queued_take_drop [of i e c] True m(1)
        by (simp add: e'_def bound_def split: option.splits)
    qed
    then have "own_inv members ok (bound (el_posted e ! i) H) w1"
      using inv m(2) e unfolding own_inv_def by (auto simp: w1_def)
    then show ?thesis
      by (rule run_closure_own) (use r True in \<open>simp add: w1_def e'_def\<close>)
  next
    case False
    with r have "w' = w" by (simp only: if_False) simp
    with inv show ?thesis by simp
  qed
qed

lemma environment_keeps [keeps_rules]:
  assumes "keeps (own_inv members ok) f"
  shows "keeps (own_inv members ok) (\<lambda>w. f (in_sock_thread s (drop_pending i w)))"
proof (rule keepsI)
  fix H w w' assume "own_inv members ok H w" and f: "f (in_sock_thread s (drop_pending i w)) = Inr w'"
  then have "own_inv members ok H (in_sock_thread s (drop_pending i w))"
    by (auto simp: in_sock_thread_def drop_pending_def split: option.splits intro!: own_fields(1,2))
  then show "own_inv members ok H w'" using f by (rule own_keepsD [OF assms])
qed

lemma complete_keeps [keeps_rules]: "keeps (own_inv members ok) (complete env i error data)"
proof (rule keepsI)
  fix H w w' assume inv: "own_inv members ok H w" and c: "complete env i error data w = Inr w'"
  have rd: "keeps (own_inv members ok) (\<lambda>w. bindR (if data = [] then Inr w else store_input c off data w) (readHandler env c error n))"
    for c off n by (rule keeps_rules)+
  show "own_inv members ok H w'"
  proof (cases "i < length (pending w)")
    case True
    show ?thesis
    proof (cases "pending w ! i")
      case (ReadOp s d off len)
      from own_keepsD [OF environment_keeps [OF rd] inv] c inv True ReadOp show ?thesis
        by (simp add: complete_def Let_def split: if_splits)
    next
      case (SendOp s d off len)
      from own_keepsD [OF environment_keeps [OF writeHandler_keeps] inv] c inv True SendOp show ?thesis
        by (simp add: complete_def split: if_splits)
    qed (use c inv True in \<open>simp_all add: complete_def\<close>)
  qed (use c inv in \<open>simp add: complete_def\<close>)
qed

end

text \<open>What an event does to the pointers that the user keeps.\<close>

fun user_holds :: "conn_event \<Rightarrow> 'a conn_world_scheme \<Rightarrow> (conn_id \<Rightarrow> int) \<Rightarrow> conn_id \<Rightarrow> int" where
  "user_holds (New l nm s) w H = H(next_conn w := H (next_conn w) + 1)"
| "user_holds (Hold c) w H = H(c := H c + 1)"
| "user_holds (Release c) w H = H(c := H c - 1)"
| "user_holds ev w H = H"

context own_callbacks
begin

lemma conn_exec_own:
  assumes inv: "own_inv members ok H w" and ex: "conn_exec env ev w = Inr w'"
  shows "own_inv members ok (user_holds ev w H) w'"
proof (cases ev)
  case (New l nm s)
  with ex obtain c where n: "new_TcpConnection env l nm s w = Inr (c, w')"
    by (auto simp: bindR_eq_Inr)
  then have "c = next_conn w" by (auto simp: new_TcpConnection_def bindR_eq_Inr)
  with new_conn_own [OF inv n] New show ?thesis by simp
next
  case (Switch t)
  with ex inv show ?thesis by (auto intro: own_fields(1))
next
  case (Hold c)
  with ex hold_own [OF inv] show ?thesis by simp
next
  case (Release c)
  with ex release_own [OF inv] show ?thesis by simp
qed (use ex in \<open>auto intro: own_keepsD [OF _ inv] keeps_rules\<close>)

end

section \<open>Users\<close>

text \<open>
  User callbacks that are sequences of calls and keep no pointer of their own beyond the call; storing a
  pointer is an event of its own, \<open>Hold\<close>.
\<close>

definition borrowing :: "(nat \<Rightarrow> user_call list) \<Rightarrow> nat \<Rightarrow> user_call list" where
  "borrowing script n = filter (\<lambda>a. a \<noteq> CallHold) (script n)"

context owner_view
begin

lemma retrieve_input_keeps [keeps_rules]:
  "keeps (own_inv members ok) (\<lambda>w. with_conn c (\<lambda>k. bindR (retrieve len (c_inputBuffer k)) (\<lambda>b.
     upd_conn c (\<lambda>k. k\<lparr>c_inputBuffer := b\<rparr>) w)) w)"
  by (rule keeps_rules | simp)+

lemma run_call_own:
  assumes inv: "own_inv members ok H w" and "run_call env c a w = Inr w'" and "a \<noteq> CallHold"
  shows "own_inv members ok H w'"
  using assms(2,3)
  by (cases a) (auto intro: own_keepsD [OF _ inv] keeps_rules dest: own_keepsD [OF retrieve_input_keeps inv])

lemma run_calls_keeps: "CallHold \<notin> set as \<Longrightarrow> keeps (own_inv members ok) (run_calls env c as)"
proof (rule keepsI)
  fix H w w'
  show "CallHold \<notin> set as \<Longrightarrow> own_inv members ok H w \<Longrightarrow> run_calls env c as w = Inr w' \<Longrightarrow> own_inv members ok H w'"
    by (induction as arbitrary: w) (auto simp: bindR_eq_Inr dest: run_call_own)
qed

lemma borrowing_keeps: "keeps (own_inv members ok) (run_calls env c (borrowing script n))"
  by (rule run_calls_keeps) (simp add: borrowing_def)

end

end
