(* ===== verification/WellFormed.thy ===== *)
theory WellFormed
  imports Keeps
begin

text \<open>
  Well-formed worlds, part by part: the two buffers of every connection satisfy the invariant of their
  class and the printed addresses are those of its endpoints; every outstanding read or send has a window
  that fits into a vector; and the function objects of timers bind no connection. Every operation keeps
  this, whatever the order of events, so the class invariant of \<open>Buffer\<close> holds where the other classes
  rely on it.
\<close>

section \<open>Predicates\<close>

definition wf_conn :: "tcp_connection \<Rightarrow> bool" where
  "wf_conn k \<longleftrightarrow> buf_ok (c_inputBuffer k) \<and> buf_ok (c_outputBuffer k)
     \<and> c_localIpPort k = endPoint2ipPort (c_localEndpoint k) \<and> c_peerIpPort k = endPoint2ipPort (c_peerEndpoint k)"

fun wf_op :: "io_op \<Rightarrow> bool" where
  "wf_op (ReadOp s c off len) \<longleftrightarrow> unat off + unat len \<le> max_size"
| "wf_op (SendOp s c off len) \<longleftrightarrow> unat off + unat len \<le> max_size"
| "wf_op op \<longleftrightarrow> True"

definition wf_timers :: "timer_queue \<Rightarrow> bool" where
  "wf_timers q \<longleftrightarrow> (\<forall>f\<in>ran (tq_map q). closure_owns f = None)"

definition wf_world :: "'a conn_world_scheme \<Rightarrow> bool" where
  "wf_world w \<longleftrightarrow> (\<forall>c k. conns w c = Some k \<longrightarrow> wf_conn k) \<and> (\<forall>op\<in>set (pending w). wf_op op)
     \<and> (\<forall>l e. loops w l = Some e \<longrightarrow> wf_timers (el_timers e))"

abbreviation wf_keeps :: "('a conn_world_scheme \<Rightarrow> 'a conn_world_scheme result) \<Rightarrow> bool" where
  "wf_keeps \<equiv> keeps (\<lambda>_::unit. wf_world)"

lemma wf_keepsI: "(\<And>w w'. wf_world w \<Longrightarrow> f w = Inr w' \<Longrightarrow> wf_world w') \<Longrightarrow> wf_keeps f"
  by (simp add: keeps_def)

lemma wf_keepsD: "wf_keeps f \<Longrightarrow> wf_world w \<Longrightarrow> f w = Inr w' \<Longrightarrow> wf_world w'"
  unfolding keeps_def by blast

lemma wf_cong:
  "conns w' = conns w \<Longrightarrow> pending w' = pending w \<Longrightarrow> loops w' = loops w \<Longrightarrow> wf_world w' = wf_world w"
  by (simp add: wf_world_def)

lemma wf_worldD: "wf_world w \<Longrightarrow> conns w c = Some k \<Longrightarrow> wf_conn k"
  by (simp add: wf_world_def)

lemma wf_put: "wf_world w \<Longrightarrow> wf_conn k \<Longrightarrow> wf_world (w\<lparr>conns := (conns w)(c \<mapsto> k)\<rparr>)"
  by (simp add: wf_world_def)

section \<open>Buffers\<close>

lemma retrieve_keeps_ok: "buf_ok b \<Longrightarrow> retrieve len b = Inr b' \<Longrightarrow> buf_ok b'"
  using retrieve_ok [of b len] retrieve_too_much [of b len] by (cases "unat len \<le> length (content b)") auto

lemma hasWritten_keeps_ok: "buf_ok b \<Longrightarrow> hasWritten len b = Inr b' \<Longrightarrow> buf_ok b'"
  using hasWritten_ok [of b len] by (auto simp: hasWritten_def assertR_eq_Inr word_le_nat_alt)

lemma ensureWritableBytes_keeps_ok:
  "buf_ok b \<Longrightarrow> unat len \<le> max_size \<Longrightarrow> ensureWritableBytes len b = Inr b' \<Longrightarrow> buf_ok b'"
  using ensureWritableBytes_ok [of b len] by (auto split: if_splits)

lemma copy_loop_length [simp]: "length (copy_loop n s d xs) = length xs"
  by (induction n arbitrary: s d xs) auto

lemma ensureWritableBytes_size:
  assumes "length (buffer_vec b) \<le> max_size" and "ensureWritableBytes len b = Inr b'"
  shows "length (buffer_vec b') \<le> max_size"
  using assms by (auto simp: ensureWritableBytes_def makeSpace_def vec_resize_def std_copy_within_def assertR_eq_Inr
      bindR_eq_Inr Let_def split: if_splits)

text \<open>A string that does not fit into a vector is never appended, whatever its length modulo \<open>2 ^ 64\<close>.\<close>

lemma append_chars_keeps_ok:
  assumes "buf_ok b" and "append_chars data b = Inr b'"
  shows "buf_ok b'"
proof -
  obtain b1 v where b1: "ensureWritableBytes (of_nat (length data)) b = Inr b1"
    and v: "std_copy data (unat (beginWrite b1)) (buffer_vec b1) = Inr v"
    using assms(2) by (auto simp: append_chars_def bindR_eq_Inr Let_def)
  have "length (buffer_vec b1) \<le> max_size"
    using ensureWritableBytes_size [OF _ b1] assms(1) by (simp add: buf_ok_nat)
  with v have "length data \<le> max_size" by (simp add: std_copy_def split: if_splits)
  from append_chars_ok [OF assms(1) this] assms(2) show ?thesis by (auto split: if_splits)
qed

lemma store_keeps_ok: "buf_ok b \<Longrightarrow> std_copy data off (buffer_vec b) = Inr v \<Longrightarrow> buf_ok (b\<lparr>buffer_vec := v\<rparr>)"
  by (auto simp: buf_ok_nat std_copy_def split: if_splits)

lemma window_ok:
  assumes "buf_ok b"
  shows "unat (beginWrite b) + unat (writableBytes b) \<le> max_size" "unat (peek b) + unat (readableBytes b) \<le> max_size"
  using assms by (auto simp: beginWrite_def peek_def unat_writableBytes unat_readableBytes buf_ok_nat)

section \<open>Operations on one connection\<close>

lemma upd_conn_wf [keeps_rules]: "(\<And>k. wf_conn k \<Longrightarrow> wf_conn (f k)) \<Longrightarrow> wf_keeps (upd_conn c f)"
  by (rule wf_keepsI) (auto simp: upd_conn_Inr intro: wf_put dest: wf_worldD)

lemma setters_wf [keeps_rules]:
  "wf_keeps (setConnectionCallback c cb)" "wf_keeps (setMessageCallback c cb)" "wf_keeps (setWriteCompleteCallback c cb)"
  "wf_keeps (setCloseCallback c b)" "wf_keeps (tc_setContext c x)" "wf_keeps (setState c s)"
  "wf_keeps (setHighWaterMarkCallback c cb n)" "wf_keeps (hold_conn c)" "wf_keeps (defaultMessageCallback c)"
  unfolding setConnectionCallback_def setMessageCallback_def setWriteCompleteCallback_def setCloseCallback_def
    tc_setContext_def setState_def setHighWaterMarkCallback_def hold_conn_def defaultMessageCallback_def
  by (rule upd_conn_wf, simp add: wf_conn_def retrieveAll_ok)+

lemma release_wf [keeps_rules]: "wf_keeps (release_conn c)"
  by (rule wf_keepsI)
    (auto simp: release_conn_def destroy_TcpConnection_def with_conn_Inr upd_conn_Inr assertR_eq_Inr wf_world_def
      wf_conn_def split: if_splits)

lemma with_shared_wf [keeps_rules]: "wf_keeps f \<Longrightarrow> wf_keeps (with_shared c f)"
  unfolding with_shared_def by (rule keeps_rules | assumption)+

lemma queueInLoop_wf [keeps_rules]: "wf_keeps (queueInLoop l f)"
  by (rule wf_keepsI) (auto simp: queueInLoop_def upd_loop_def with_loop_Inr wf_world_def split: if_splits)

lemma runInLoop_wf [keeps_rules]: "wf_keeps call \<Longrightarrow> wf_keeps (runInLoop l f call)"
  unfolding runInLoop_def by (rule keeps_rules | assumption)+

lemma runInLoop_shared_wf [keeps_rules]: "wf_keeps call \<Longrightarrow> wf_keeps (runInLoop_shared l f c call)"
  unfolding runInLoop_shared_def by (rule keeps_rules | assumption)+

lemma async_read_some_wf [keeps_rules]: "wf_keeps (async_read_some c)"
  by (rule wf_keepsI) (auto simp: async_read_some_def with_conn_Inr wf_world_def wf_conn_def window_ok)

lemma beginFirstRead_wf [keeps_rules]: "wf_keeps (beginFirstRead c)"
  by (simp add: beginFirstRead_def [abs_def] async_read_some_wf)

lemma send_wf [keeps_rules]: "wf_keeps (send c m)"
proof (rule wf_keepsI)
  fix w w' :: "'a conn_world_scheme"
  assume wf: "wf_world w" and "send c m w = Inr w'"
  then obtain k b where k: "conns w c = Some k" and b: "append_chars m (c_outputBuffer k) = Inr b"
    and w': "w' = w\<lparr>conns := (conns w)(c \<mapsto> k\<lparr>c_outputBuffer := b\<rparr>),
      pending := pending w @ [SendOp (c_socket k) c (peek b) (readableBytes b)]\<rparr>"
    by (auto simp: send_def with_conn_Inr bindR_eq_Inr)
  have "wf_conn k" by (rule wf_worldD [OF wf k])
  then have "buf_ok b" using append_chars_keeps_ok [OF _ b] by (simp add: wf_conn_def)
  with \<open>wf_conn k\<close> have "wf_conn (k\<lparr>c_outputBuffer := b\<rparr>)" by (simp add: wf_conn_def)
  with wf window_ok(2) [OF \<open>buf_ok b\<close>] show "wf_world w'" by (simp add: w' wf_world_def)
qed

text \<open>An operation on the input buffer, and what the caller does next.\<close>

lemma input_wf:
  assumes "\<And>b b'. buf_ok b \<Longrightarrow> f b = Inr b' \<Longrightarrow> buf_ok b'" and "\<And>k. wf_keeps (g k)"
  shows "wf_keeps (\<lambda>w. with_conn c (\<lambda>k. bindR (f (c_inputBuffer k)) (\<lambda>b.
    bindR (upd_conn c (\<lambda>k. k\<lparr>c_inputBuffer := b\<rparr>) w) (g k))) w)"
proof (rule wf_keepsI)
  fix w w' assume wf: "wf_world w" and "with_conn c (\<lambda>k. bindR (f (c_inputBuffer k)) (\<lambda>b.
    bindR (upd_conn c (\<lambda>k. k\<lparr>c_inputBuffer := b\<rparr>) w) (g k))) w = Inr w'"
  then obtain k b where k: "conns w c = Some k" and b: "f (c_inputBuffer k) = Inr b"
    and g: "g k (w\<lparr>conns := (conns w)(c \<mapsto> k\<lparr>c_inputBuffer := b\<rparr>)\<rparr>) = Inr w'"
    by (auto simp: with_conn_Inr bindR_eq_Inr upd_conn_Inr)
  have "wf_conn (k\<lparr>c_inputBuffer := b\<rparr>)" using wf_worldD [OF wf k] assms(1) [OF _ b] by (simp add: wf_conn_def)
  from wf_keepsD [OF assms(2) wf_put [OF wf this] g] show "wf_world w'" .
qed

lemma output_wf:
  assumes "\<And>b b'. buf_ok b \<Longrightarrow> f b = Inr b' \<Longrightarrow> buf_ok b'" and "\<And>k. wf_keeps (g k)"
  shows "wf_keeps (\<lambda>w. with_conn c (\<lambda>k. bindR (f (c_outputBuffer k)) (\<lambda>b.
    bindR (upd_conn c (\<lambda>k. k\<lparr>c_outputBuffer := b\<rparr>) w) (g k))) w)"
proof (rule wf_keepsI)
  fix w w' assume wf: "wf_world w" and "with_conn c (\<lambda>k. bindR (f (c_outputBuffer k)) (\<lambda>b.
    bindR (upd_conn c (\<lambda>k. k\<lparr>c_outputBuffer := b\<rparr>) w) (g k))) w = Inr w'"
  then obtain k b where k: "conns w c = Some k" and b: "f (c_outputBuffer k) = Inr b"
    and g: "g k (w\<lparr>conns := (conns w)(c \<mapsto> k\<lparr>c_outputBuffer := b\<rparr>)\<rparr>) = Inr w'"
    by (auto simp: with_conn_Inr bindR_eq_Inr upd_conn_Inr)
  have "wf_conn (k\<lparr>c_outputBuffer := b\<rparr>)" using wf_worldD [OF wf k] assms(1) [OF _ b] by (simp add: wf_conn_def)
  from wf_keepsD [OF assms(2) wf_put [OF wf this] g] show "wf_world w'" .
qed

lemma store_input_wf [keeps_rules]: "wf_keeps (store_input c off data)"
  by (rule wf_keepsI)
    (auto simp: store_input_def with_conn_Inr bindR_eq_Inr upd_conn_Inr wf_conn_def store_keeps_ok
      intro!: wf_put dest: wf_worldD)

lemma read_again_wf [keeps_rules]:
  assumes "unat n \<le> max_size"
  shows "wf_keeps (read_again c n)"
proof -
  have "wf_keeps (\<lambda>w. with_conn c (\<lambda>k. bindR (ensureWritableBytes n (c_inputBuffer k)) (\<lambda>b.
      bindR (upd_conn c (\<lambda>k. k\<lparr>c_inputBuffer := b\<rparr>) w) (async_read_some c))) w)"
    by (rule input_wf) (auto intro: ensureWritableBytes_keeps_ok [OF _ assms] async_read_some_wf)
  then show ?thesis
    unfolding keeps_def read_again_def by (auto simp: with_conn_Inr split: if_splits)
qed

lemma shutdownInLoop_wf [keeps_rules]: "wf_keeps (shutdownInLoop env c)"
  by (rule wf_keepsI)
    (auto simp: shutdownInLoop_def with_conn_Inr bindR_eq_Inr wf_world_def split: option.splits)

lemma reading_wf [keeps_rules]:
  "wf_keeps (startReadInLoop c)" "wf_keeps (stopReadInLoop c)" "wf_keeps (startRead c)" "wf_keeps (stopRead c)"
  "wf_keeps (tc_shutdown env c)"
proof -
  show 1: "wf_keeps (startReadInLoop c)"
    unfolding startReadInLoop_def by (rule keeps_rules | simp add: wf_conn_def)+
  show 2: "wf_keeps (stopReadInLoop c)"
    unfolding stopReadInLoop_def by (rule keeps_rules | simp add: wf_conn_def)+
  show "wf_keeps (startRead c)" unfolding startRead_def by (rule keeps_rules 1)+
  show "wf_keeps (stopRead c)" unfolding stopRead_def by (rule keeps_rules 2)+
  show "wf_keeps (tc_shutdown env c)" unfolding tc_shutdown_def by (rule keeps_rules)+
qed

lemma new_conn_wf:
  assumes "wf_world w" and "new_TcpConnection env l nm s w = Inr (c, w')"
  shows "wf_world w'"
proof -
  obtain b where b: "new_Buffer kInitialSize = Inr b" "buf_ok b"
    using new_Buffer_ok [of kInitialSize] by (auto simp: kInitialSize_def max_size_def)
  with assms show ?thesis by (auto simp: new_TcpConnection_def bindR_eq_Inr wf_world_def wf_conn_def split: if_splits)
qed

section \<open>Callbacks and events\<close>

locale wf_connection =
  fixes env :: "'a conn_world_scheme conn_env"
  assumes connection_wf [keeps_rules]: "wf_keeps (on_connection env n c)"
begin

lemma report_wf [keeps_rules]: "wf_keeps f \<Longrightarrow> wf_keeps (\<lambda>w. f (report c k w))"
  by (rule wf_keepsI, erule wf_keepsD [rotated 2]) (simp_all add: report_def wf_world_def)

lemma invoke_connection_wf [keeps_rules]: "wf_keeps (invoke_connection env c)"
proof -
  have d: "wf_keeps (defaultConnectionCallback c)" unfolding defaultConnectionCallback_def by (rule keeps_rules)+
  show ?thesis unfolding invoke_connection_def by (rule keeps_rules d)+
qed

lemma establishing_wf [keeps_rules]: "wf_keeps (connectEstablished env c)" "wf_keeps (connectDestroyed env c)"
  unfolding connectEstablished_def connectDestroyed_def by (rule keeps_rules)+

end

locale wf_env = wf_connection +
  assumes message_wf [keeps_rules]: "wf_keeps (on_message env n c)"
    and write_complete_wf [keeps_rules]: "wf_keeps (on_write_complete env n c)"
    and close_wf [keeps_rules]: "wf_keeps (on_close env c)"
    and task_wf [keeps_rules]: "wf_keeps (on_task env f)"
begin

lemma invoke_wf [keeps_rules]:
  "wf_keeps (invoke_message env cb c)" "wf_keeps (invoke_write_complete env cb c)" "wf_keeps (invoke_close env c)"
proof -
  show "wf_keeps (invoke_message env cb c)" by (cases cb) (simp_all add: invoke_message_def keeps_rules)
  show "wf_keeps (invoke_write_complete env cb c)" by (cases cb) (simp_all add: invoke_write_complete_def keeps_rules)
  show "wf_keeps (invoke_close env c)" unfolding invoke_close_def by (rule keeps_rules)+
qed

lemma handleClose_wf [keeps_rules]: "wf_keeps (handleClose env c)"
  unfolding handleClose_def by (rule keeps_rules | simp add: wf_conn_def)+

lemma closing_wf [keeps_rules]:
  "wf_keeps (handleError env c)" "wf_keeps (forceCloseInLoop env c)" "wf_keeps (forceClose env c)"
proof -
  show "wf_keeps (handleError env c)" unfolding handleError_def by (rule keeps_rules)+
  show 1: "wf_keeps (forceCloseInLoop env c)" unfolding forceCloseInLoop_def by (rule keeps_rules)+
  show "wf_keeps (forceClose env c)" unfolding forceClose_def by (rule keeps_rules 1)+
qed

lemma readHandler_wf:
  assumes "unat n \<le> max_size"
  shows "wf_keeps (readHandler env c error n)"
proof (cases error)
  case Success
  have "wf_keeps (\<lambda>w1. bindR (case c_messageCallback k of None \<Rightarrow> Inr w1
      | Some cb \<Rightarrow> with_shared c (invoke_message env cb c) w1) (read_again c n))" for k
    by (rule keeps_rules assms)+
  from input_wf [OF hasWritten_keeps_ok this] show ?thesis by (simp add: Success readHandler_def keeps_def)
next
  case OtherError
  then show ?thesis unfolding readHandler_def by (simp, intro keeps_bind closing_wf read_again_wf assms)
next
  case Eof
  with handleClose_wf [of c] show ?thesis by (simp add: readHandler_def keeps_def)
qed

lemma writeHandler_wf [keeps_rules]: "wf_keeps (writeHandler env c error n)"
proof -
  have "wf_keeps (\<lambda>w1. case c_writeCompleteCallback k of None \<Rightarrow> Inr w1
      | Some cb \<Rightarrow> with_shared c (invoke_write_complete env cb c) w1)" for k
    by (rule keeps_rules)+
  from output_wf [OF retrieve_keeps_ok this] show ?thesis
    unfolding writeHandler_def by (intro keeps_if keeps_return)
qed

lemma run_closure_wf [keeps_rules]: "wf_keeps (run_closure env f)"
proof (cases f)
  case (ForceCloseInLoop c)
  have "wf_keeps (\<lambda>w. bindR (forceCloseInLoop env c w) (release_conn c))" by (rule keeps_rules)+
  with ForceCloseInLoop show ?thesis by (simp add: keeps_def)
next
  case (ConnectEstablished c)
  have "wf_keeps (\<lambda>w. bindR (connectEstablished env c w) (release_conn c))" by (rule keeps_rules)+
  with ConnectEstablished show ?thesis by (simp add: keeps_def)
next
  case (ConnectDestroyed c)
  have "wf_keeps (\<lambda>w. bindR (connectDestroyed env c w) (release_conn c))" by (rule keeps_rules)+
  with ConnectDestroyed show ?thesis by (simp add: keeps_def)
next
  case (SetCloseCallback c)
  have "wf_keeps (\<lambda>w. bindR (setCloseCallback c True w) (release_conn c))" by (rule keeps_rules)+
  with SetCloseCallback show ?thesis by (simp add: keeps_def)
next
  case (StartReadInLoop c)
  with reading_wf(1) [of c] show ?thesis by (simp add: keeps_def)
next
  case (StopReadInLoop c)
  with reading_wf(2) [of c] show ?thesis by (simp add: keeps_def)
next
  case (ShutdownInLoop c)
  with shutdownInLoop_wf [of env c] show ?thesis by (simp add: keeps_def)
qed (use task_wf [of f] in \<open>simp_all add: keeps_def\<close>)

lemma dispatch_wf [keeps_rules]: "wf_keeps (dispatch (run_closure env) l i)"
proof (rule wf_keepsI)
  fix w w' assume wf: "wf_world w" and "dispatch (run_closure env) l i w = Inr w'"
  then obtain e where e: "loops w l = Some e" and d: "(if el_work e \<and> \<not> el_stopped e \<and> i < length (el_posted e)
      then run_closure env (el_posted e ! i) (w\<lparr>this_thread := el_threadId e, loops := (loops w)(l \<mapsto>
        e\<lparr>el_posted := take i (el_posted e) @ drop (Suc i) (el_posted e)\<rparr>)\<rparr>)
      else Inr w) = Inr w'"
    by (auto simp: dispatch_def with_loop_Inr)
  have "wf_world (w\<lparr>this_thread := el_threadId e, loops := (loops w)(l \<mapsto>
      e\<lparr>el_posted := take i (el_posted e) @ drop (Suc i) (el_posted e)\<rparr>)\<rparr>)"
    using wf e by (simp add: wf_world_def)
  with d wf show "wf_world w'" using wf_keepsD [OF run_closure_wf] by (simp split: if_splits)
qed

end

lemma drop_pending_wf: "wf_world w \<Longrightarrow> wf_world (drop_pending i w)"
  using set_take_subset [of i "pending w"] set_drop_subset [of "Suc i" "pending w"]
  by (auto simp: drop_pending_def wf_world_def)

lemma in_sock_thread_wf: "wf_world w \<Longrightarrow> wf_world (in_sock_thread s w)"
  by (simp add: in_sock_thread_def wf_world_def split: option.splits)

context wf_env
begin

lemma complete_wf [keeps_rules]: "wf_keeps (complete env i error data)"
proof (rule wf_keepsI)
  fix w w' assume wf: "wf_world w" and c: "complete env i error data w = Inr w'"
  have env: "wf_world (in_sock_thread s (drop_pending i w))" for s
    by (rule in_sock_thread_wf [OF drop_pending_wf [OF wf]])
  show "wf_world w'"
  proof (cases "i < length (pending w)")
    case True
    then have op: "wf_op (pending w ! i)" using wf by (simp add: wf_world_def)
    show ?thesis
    proof (cases "pending w ! i")
      case (ReadOp s d off len)
      show ?thesis
      proof (cases "unat len < length data")
        case False
        then have n: "unat (of_nat (length data) :: size_t) \<le> max_size"
          using op ReadOp by (simp add: unat_of_nat_size_t)
        have "wf_keeps (\<lambda>w. bindR (if data = [] then Inr w else store_input d off data w)
            (readHandler env d error (of_nat (length data))))"
          by (intro keeps_bind keeps_if keeps_return store_input_wf readHandler_wf n)
        from wf_keepsD [OF this env [of s]] c True ReadOp False show ?thesis by (simp add: complete_def Let_def)
      qed (use c wf True ReadOp in \<open>simp add: complete_def\<close>)
    next
      case (SendOp s d off len)
      with c wf True wf_keepsD [OF writeHandler_wf env [of s]] show ?thesis
        by (simp add: complete_def split: if_splits)
    qed (use c wf True in \<open>simp_all add: complete_def\<close>)
  qed (use c wf in \<open>simp add: complete_def\<close>)
qed

lemma conn_exec_wf [keeps_rules]: "wf_keeps (conn_exec env ev)"
proof (rule wf_keepsI)
  fix w w' assume wf: "wf_world w" and ex: "conn_exec env ev w = Inr w'"
  show "wf_world w'"
  proof (cases ev)
    case (New l nm s)
    with ex wf new_conn_wf show ?thesis by (auto simp: bindR_eq_Inr)
  next
    case (Switch t)
    with ex wf show ?thesis by (auto simp: wf_world_def)
  qed (use ex in \<open>auto intro: wf_keepsD [OF _ wf] keeps_rules\<close>)
qed

end

section \<open>Scripted users\<close>

lemma bindR_return: "bindR r Inr = r"
  by (cases r) simp_all

lemma run_call_wf: "wf_keeps (run_call env c a)"
proof (cases a)
  case (CallRetrieve len)
  have "wf_keeps (\<lambda>w. with_conn c (\<lambda>k. bindR (retrieve len (c_inputBuffer k)) (\<lambda>b.
      bindR (upd_conn c (\<lambda>k. k\<lparr>c_inputBuffer := b\<rparr>) w) Inr)) w)"
    by (rule input_wf) (auto intro: retrieve_keeps_ok keeps_return)
  then show ?thesis by (simp add: CallRetrieve keeps_def bindR_return)
qed (use send_wf reading_wf setters_wf in \<open>simp_all add: keeps_def\<close>)

lemma run_calls_wf: "wf_keeps (run_calls env c as)"
proof (rule wf_keepsI)
  fix w w' :: "'a conn_world_scheme"
  show "wf_world w \<Longrightarrow> run_calls env c as w = Inr w' \<Longrightarrow> wf_world w'"
    by (induction as arbitrary: w) (auto simp: bindR_eq_Inr dest: wf_keepsD [OF run_call_wf])
qed

end
