(* ===== verification/ConnectionIO.thy ===== *)
theory ConnectionIO
  imports TcpConnection
begin

text \<open>
  The byte streams of a connection: what \<open>readHandler\<close> and the message callback make of the bytes
  that arrive, what \<open>send\<close> and \<open>writeHandler\<close> do with the bytes to go out, and the sequences of
  calls for which the two go wrong. The definitions are those of \<open>TcpConnection\<close>.
\<close>

section \<open>Receiving\<close>

text \<open>The outstanding reads of a connection.\<close>

fun is_read :: "conn_id \<Rightarrow> io_op \<Rightarrow> bool" where
  "is_read c (ReadOp s c' off len) \<longleftrightarrow> c' = c"
| "is_read c _ \<longleftrightarrow> False"

definition reads_of :: "conn_id \<Rightarrow> 'a conn_world_scheme \<Rightarrow> io_op list" where
  "reads_of c w = filter (is_read c) (pending w)"

definition window :: "conn_id \<Rightarrow> tcp_connection \<Rightarrow> io_op" where
  "window c k = ReadOp (c_socket k) c (beginWrite (c_inputBuffer k)) (writableBytes (c_inputBuffer k))"

lemma is_read_window [simp]: "is_read c (window c k)"
  by (simp add: window_def)

text \<open>A connection that reads: one read is outstanding, into the free space behind the content.\<close>

definition ready :: "conn_id \<Rightarrow> 'a conn_world_scheme \<Rightarrow> bool" where
  "ready c w \<longleftrightarrow> (\<exists>k. conns w c = Some k \<and> buf_ok (c_inputBuffer k) \<and> c_reading k \<and> 1 \<le> c_refs k
     \<and> reads_of c w = [window c k])"

definition input :: "conn_id \<Rightarrow> 'a conn_world_scheme \<Rightarrow> byte list" where
  "input c w = (case conns w c of None \<Rightarrow> [] | Some k \<Rightarrow> content (c_inputBuffer k))"

text \<open>A message callback that takes bytes from the front of the input buffer and does nothing else.\<close>

definition only_consumes :: "'a conn_world_scheme conn_env \<Rightarrow> conn_id \<Rightarrow> bool" where
  "only_consumes env c \<longleftrightarrow> (\<forall>n w w' k. conns w c = Some k \<longrightarrow> buf_ok (c_inputBuffer k) \<longrightarrow>
     on_message env n c w = Inr w' \<longrightarrow>
     (\<exists>b m. w' = w\<lparr>conns := (conns w)(c \<mapsto> k\<lparr>c_inputBuffer := b\<rparr>)\<rparr> \<and> buf_ok b
        \<and> content b = drop m (content (c_inputBuffer k))))"

text \<open>Any number of completed reads of the connection, and the bytes that came.\<close>

inductive received :: "'a conn_world_scheme conn_env \<Rightarrow> conn_id \<Rightarrow> 'a conn_world_scheme \<Rightarrow> byte list \<Rightarrow>
    'a conn_world_scheme \<Rightarrow> bool" for env c w where
  received_none: "received env c w [] w"
| received_more: "received env c w bs w1 \<Longrightarrow> i < length (pending w1) \<Longrightarrow> pending w1 ! i = ReadOp s c off len \<Longrightarrow>
    data \<noteq> [] \<Longrightarrow> length data \<le> unat len \<Longrightarrow> complete env i Success data w1 = Inr w2 \<Longrightarrow>
    received env c w (bs @ data) w2"

lemma filter_drop_nth:
  assumes "i < length xs" and "P (xs ! i)" and "filter P xs = [y]"
  shows "xs ! i = y" and "filter P (take i xs @ drop (Suc i) xs) = []"
proof -
  have "xs = take i xs @ xs ! i # drop (Suc i) xs" using assms(1) by (rule id_take_nth_drop)
  then have "filter P (take i xs) @ xs ! i # filter P (drop (Suc i) xs) = [y]"
    using assms(2,3) by (metis filter.simps(2) filter_append)
  then show "xs ! i = y" and "filter P (take i xs @ drop (Suc i) xs) = []"
    by (auto simp: append_eq_Cons_conv)
qed

lemma remaining_nth:
  assumes "x \<in> set (take i xs @ drop (Suc i) xs)"
  shows "\<exists>j < length xs. j \<noteq> i \<and> xs ! j = x"
proof -
  from assms consider "x \<in> set (take i xs)" | "x \<in> set (drop (Suc i) xs)" by auto
  then show ?thesis
  proof cases
    case 1
    then obtain j where "j < length (take i xs)" "take i xs ! j = x" by (auto simp: in_set_conv_nth)
    then show ?thesis by (intro exI [of _ j]) auto
  next
    case 2
    then obtain j where "j < length (drop (Suc i) xs)" "drop (Suc i) xs ! j = x" by (auto simp: in_set_conv_nth)
    then show ?thesis by (intro exI [of _ "Suc i + j"]) auto
  qed
qed

lemma env_fields [simp]:
  "conns (in_sock_thread s w) = conns w" "pending (in_sock_thread s w) = pending w"
  "conns (drop_pending i w) = conns w"
  "pending (drop_pending i w) = take i (pending w) @ drop (Suc i) (pending w)"
  by (auto simp: in_sock_thread_def drop_pending_def split: option.splits)

text \<open>A successful read, up to the message callback.\<close>

lemma complete_read_eq:
  assumes "i < length (pending w)" and "pending w ! i = ReadOp s c off len" and "window c k = ReadOp s c off len"
    and "conns w c = Some k" and "buf_ok (c_inputBuffer k)" and "data \<noteq> []" and "length data \<le> unat len"
  shows "\<exists>b w1. buf_ok b \<and> content b = content (c_inputBuffer k) @ data
    \<and> w1 = (in_sock_thread s (drop_pending i w))\<lparr>conns := (conns w)(c \<mapsto> k\<lparr>c_inputBuffer := b\<rparr>)\<rparr>
    \<and> complete env i Success data w =
        bindR (case c_messageCallback k of None \<Rightarrow> Inr w1 | Some cb \<Rightarrow> with_shared c (invoke_message env cb c) w1)
          (read_again c (of_nat (length data)))"
proof -
  let ?b = "c_inputBuffer k"
  let ?w = "in_sock_thread s (drop_pending i w)"
  have win: "off = beginWrite ?b" "len = writableBytes ?b" using assms(3) by (simp_all add: window_def)
  with store_hasWritten [OF assms(5), of data] assms(7) obtain b v where
    v: "std_copy data (unat off) (buffer_vec ?b) = Inr v"
    and b: "hasWritten (of_nat (length data)) (?b\<lparr>buffer_vec := v\<rparr>) = Inr b"
    and ok: "buf_ok b" "content b = content ?b @ data"
    by (auto simp: bindR_eq_Inr)
  let ?w1 = "?w\<lparr>conns := (conns w)(c \<mapsto> k\<lparr>c_inputBuffer := b\<rparr>)\<rparr>"
  have "store_input c off data ?w = Inr (?w\<lparr>conns := (conns w)(c \<mapsto> k\<lparr>c_inputBuffer := ?b\<lparr>buffer_vec := v\<rparr>\<rparr>)\<rparr>)"
    using assms(4) v by (simp add: store_input_def with_conn_def upd_conn_def)
  then have "complete env i Success data w =
        bindR (case c_messageCallback k of None \<Rightarrow> Inr ?w1 | Some cb \<Rightarrow> with_shared c (invoke_message env cb c) ?w1)
          (read_again c (of_nat (length data)))"
    using assms(1,2,4,6,7) b by (simp add: complete_def readHandler_def with_conn_def upd_conn_def Let_def)
  with ok show ?thesis by blast
qed

lemma read_again_ready:
  assumes "read_again c n w = Inr w'" and "conns w c = Some k" and "buf_ok (c_inputBuffer k)" and "c_reading k"
    and "1 \<le> c_refs k" and "reads_of c w = []" and "unat n \<le> max_size"
  shows "ready c w' \<and> input c w' = content (c_inputBuffer k)
    \<and> (\<exists>k'. conns w' c = Some k' \<and> unat n \<le> unat (writableBytes (c_inputBuffer k'))
         \<and> c_messageCallback k' = c_messageCallback k)"
proof -
  obtain b where b: "ensureWritableBytes n (c_inputBuffer k) = Inr b"
    and w': "w' = w\<lparr>conns := (conns w)(c \<mapsto> k\<lparr>c_inputBuffer := b\<rparr>),
        pending := pending w @ [window c (k\<lparr>c_inputBuffer := b\<rparr>)]\<rparr>"
    using assms(1,2,4) by (auto simp: read_again_def result_simps async_read_some_def window_def)
  have "buf_ok b \<and> content b = content (c_inputBuffer k) \<and> unat n \<le> unat (writableBytes b)"
    using ensureWritableBytes_ok [OF assms(3,7)] b by (auto split: if_splits)
  with w' assms show ?thesis
    by (auto simp: ready_def input_def reads_of_def window_def)
qed

text \<open>The message callback in between, when it only consumes.\<close>

lemma message_consumes:
  assumes "only_consumes env c" and "conns w c = Some k" and "buf_ok (c_inputBuffer k)" and "1 \<le> c_refs k"
    and "with_shared c (invoke_message env cb c) w = Inr w'"
  shows "\<exists>b m. w' = w\<lparr>conns := (conns w)(c \<mapsto> k\<lparr>c_inputBuffer := b\<rparr>)\<rparr> \<and> buf_ok b
    \<and> content b = drop m (content (c_inputBuffer k))"
proof -
  define k1 where "k1 = k\<lparr>c_refs := c_refs k + 1\<rparr>"
  define w1 where "w1 = w\<lparr>conns := (conns w)(c \<mapsto> k1)\<rparr>"
  obtain w2 where w2: "invoke_message env cb c w1 = Inr w2" "release_conn c w2 = Inr w'"
    using assms(2,5) by (auto simp: with_shared_def hold_conn_def result_simps w1_def k1_def)
  have k1: "conns w1 c = Some k1" "buf_ok (c_inputBuffer k1)" "2 \<le> c_refs k1"
    using assms(2-4) by (simp_all add: w1_def k1_def)
  have "\<exists>b m. w2 = w1\<lparr>conns := (conns w1)(c \<mapsto> k1\<lparr>c_inputBuffer := b\<rparr>)\<rparr> \<and> buf_ok b
      \<and> content b = drop m (content (c_inputBuffer k1))"
  proof (cases cb)
    case DefaultCallback
    then have "w2 = w1\<lparr>conns := (conns w1)(c \<mapsto> k1\<lparr>c_inputBuffer := retrieveAll (c_inputBuffer k1)\<rparr>)\<rparr>"
      using w2(1) k1(1) by (simp add: invoke_message_def defaultMessageCallback_def upd_conn_Inr)
    with retrieveAll_ok [OF k1(2)] show ?thesis by (metis drop_all order_refl)
  next
    case (UserCallback n)
    then have "on_message env n c w1 = Inr w2" using w2(1) by (simp add: invoke_message_def)
    with assms(1) k1 show ?thesis unfolding only_consumes_def by blast
  qed
  then obtain b m where bm: "w2 = w1\<lparr>conns := (conns w1)(c \<mapsto> k1\<lparr>c_inputBuffer := b\<rparr>)\<rparr>" "buf_ok b"
      "content b = drop m (content (c_inputBuffer k1))" by blast
  then have "w' = w\<lparr>conns := (conns w)(c \<mapsto> k\<lparr>c_inputBuffer := b\<rparr>)\<rparr>"
    using w2(2) k1(3) by (auto simp: release_conn_def result_simps w1_def k1_def)
  with bm show ?thesis by (auto simp: k1_def)
qed

lemma complete_read_ready:
  assumes "only_consumes env c" and "ready c w" and "i < length (pending w)"
    and "pending w ! i = ReadOp s c off len" and "data \<noteq> []" and "length data \<le> unat len"
    and "complete env i Success data w = Inr w'"
  shows "ready c w' \<and> (\<exists>m. input c w' = drop m (input c w @ data))
    \<and> (\<forall>s off len. ReadOp s c off len \<in> set (pending w') \<longrightarrow> length data \<le> unat len)"
proof -
  obtain k where k: "conns w c = Some k" "buf_ok (c_inputBuffer k)" "c_reading k" "1 \<le> c_refs k"
    and r: "reads_of c w = [window c k]" using assms(2) by (auto simp: ready_def)
  have win: "window c k = ReadOp s c off len" and none: "reads_of c (drop_pending i w) = []"
    using filter_drop_nth [of i "pending w" "is_read c" "window c k"] assms(3,4) r
    by (simp_all add: reads_of_def)
  obtain b w1 where b: "buf_ok b" "content b = content (c_inputBuffer k) @ data"
    and w1: "w1 = (in_sock_thread s (drop_pending i w))\<lparr>conns := (conns w)(c \<mapsto> k\<lparr>c_inputBuffer := b\<rparr>)\<rparr>"
    and eq: "complete env i Success data w =
        bindR (case c_messageCallback k of None \<Rightarrow> Inr w1 | Some cb \<Rightarrow> with_shared c (invoke_message env cb c) w1)
          (read_again c (of_nat (length data)))"
    using complete_read_eq [OF assms(3,4) win k(1,2) assms(5,6)] by blast
  let ?k1 = "k\<lparr>c_inputBuffer := b\<rparr>"
  obtain w2 where w2: "(case c_messageCallback k of None \<Rightarrow> Inr w1
      | Some cb \<Rightarrow> with_shared c (invoke_message env cb c) w1) = Inr w2"
    and again: "read_again c (of_nat (length data)) w2 = Inr w'"
    using trans [OF eq [symmetric] assms(7)] unfolding bindR_eq_Inr by blast
  have "conns w1 c = Some ?k1" "reads_of c w1 = []"
    using none by (simp_all add: w1 reads_of_def)
  with w2 message_consumes [OF assms(1), of w1 ?k1] b k obtain b2 m where
    b2: "conns w2 c = Some (k\<lparr>c_inputBuffer := b2\<rparr>)" "buf_ok b2" "content b2 = drop m (content b)"
      "reads_of c w2 = []"
    by (cases "c_messageCallback k") (fastforce simp: reads_of_def intro: that [of _ 0])+
  have len: "length data \<le> max_size"
    using assms(6) win k(2) by (auto simp: window_def unat_writableBytes buf_ok_nat)
  then have n: "unat (of_nat (length data) :: size_t) = length data" by (rule unat_of_nat_size_t)
  from read_again_ready [OF again b2(1)] b2 k(3,4) n len
  have r: "ready c w'" "input c w' = content b2"
    and "\<exists>k'. conns w' c = Some k' \<and> length data \<le> unat (writableBytes (c_inputBuffer k'))" by auto
  then have "\<forall>x \<in> set (reads_of c w'). \<forall>s off len. x = ReadOp s c off len \<longrightarrow> length data \<le> unat len"
    by (auto simp: ready_def window_def)
  with r b2 b k show ?thesis by (auto simp: input_def reads_of_def)
qed

lemma received_ready:
  assumes "only_consumes env c" and "ready c w" and "received env c w bs w'"
  shows "ready c w' \<and> (\<exists>consumed. consumed @ input c w' = input c w @ bs)"
  using assms(3)
proof induction
  case received_none
  with assms(2) show ?case by auto
next
  case (received_more bs w1 i s off len data w2)
  then obtain consumed where c: "consumed @ input c w1 = input c w @ bs" and r: "ready c w1" by blast
  from complete_read_ready [OF assms(1) r received_more.hyps(2-6)] obtain m where
    "ready c w2" "input c w2 = drop m (input c w1 @ data)" by blast
  moreover from this(2) c
  have "(consumed @ take m (input c w1 @ data)) @ input c w2 = input c w @ bs @ data"
    by (metis append.assoc append_take_drop_id)
  ultimately show ?case by blast
qed

section \<open>Sending\<close>

text \<open>The bytes that a started send refers to, and the completion of a send.\<close>

definition sent_bytes :: "io_op \<Rightarrow> 'a conn_world_scheme \<Rightarrow> byte list" where
  "sent_bytes op w = (case op of SendOp s c off len \<Rightarrow>
     (case conns w c of None \<Rightarrow> [] | Some k \<Rightarrow> range_bytes (c_outputBuffer k) off (off + len)) | _ \<Rightarrow> [])"

definition unsent :: "conn_id \<Rightarrow> 'a conn_world_scheme \<Rightarrow> byte list" where
  "unsent c w = (case conns w c of None \<Rightarrow> [] | Some k \<Rightarrow> content (c_outputBuffer k))"

lemma send_eq:
  assumes "conns w c = Some k" and "buf_ok (c_outputBuffer k)" and "length m \<le> max_size"
    and "send c m w = Inr w'"
  shows "\<exists>b. w' = w\<lparr>conns := (conns w)(c \<mapsto> k\<lparr>c_outputBuffer := b\<rparr>),
      pending := pending w @ [SendOp (c_socket k) c (peek b) (readableBytes b)]\<rparr>
    \<and> buf_ok b \<and> content b = content (c_outputBuffer k) @ m"
  using assms append_chars_ok [OF assms(2,3)] by (auto simp: send_def result_simps split: if_splits)

lemma range_bytes_all: "buf_ok b \<Longrightarrow> range_bytes b (peek b) (peek b + readableBytes b) = content b"
  by (simp add: range_bytes_prefix readable_content)

text \<open>A completed send without write-complete callback.\<close>

lemma complete_send_eq:
  assumes "i < length (pending w)" and "pending w ! i = SendOp s c off len" and "length data \<le> unat len"
    and "conns w c = Some k" and "buf_ok (c_outputBuffer k)" and "c_writeCompleteCallback k = None"
  shows "if length data \<le> length (content (c_outputBuffer k))
    then \<exists>b. complete env i Success data w =
        Inr ((in_sock_thread s (drop_pending i w))\<lparr>conns := (conns w)(c \<mapsto> k\<lparr>c_outputBuffer := b\<rparr>)\<rparr>)
      \<and> buf_ok b \<and> content b = drop (length data) (content (c_outputBuffer k))
    else complete env i Success data w = Inl AssertionFailed"
proof -
  have "length data < 18446744073709551616"
    using assms(3) unat_size_t_lt [of len] by linarith
  then have n: "unat (of_nat (length data) :: size_t) = length data" by (simp add: unat_of_nat)
  have "complete env i Success data w =
      bindR (retrieve (of_nat (length data)) (c_outputBuffer k)) (\<lambda>b.
        Inr ((in_sock_thread s (drop_pending i w))\<lparr>conns := (conns w)(c \<mapsto> k\<lparr>c_outputBuffer := b\<rparr>)\<rparr>))"
    using assms by (simp add: complete_def writeHandler_def with_conn_def upd_conn_def Let_def)
  moreover note retrieve_ok [OF assms(5), of "of_nat (length data)"]
    retrieve_too_much [OF assms(5), of "of_nat (length data)"]
  ultimately show ?thesis using n
    by (cases "length data \<le> length (content (c_outputBuffer k))") fastforce+
qed

section \<open>Properties\<close>


text \<open>A connection with room for eight bytes, reading, established on loop 0.\<close>

definition small_buffer :: buffer where
  "small_buffer = \<lparr>buffer_vec = replicate 16 0, readerIndex = 8, writerIndex = 8\<rparr>"

definition open_conn :: tcp_connection where
  "open_conn = \<lparr>c_loop = Some 0, c_name = ''c'', c_state = kConnected, c_reading = True, c_socket = 7,
     c_localEndpoint = sample_endpoint, c_peerEndpoint = sample_endpoint,
     c_connectionCallback = Some DefaultCallback, c_messageCallback = Some (UserCallback 0),
     c_writeCompleteCallback = None, c_highWaterMarkCallback = None, c_closeCallback = True,
     c_highWaterMark = 67108864, c_inputBuffer = small_buffer, c_outputBuffer = small_buffer, c_context = None,
     c_localIpPort = ''127.0.0.1:80'', c_peerIpPort = ''127.0.0.1:80'', c_refs = 1\<rparr>"

definition open_world :: conn_world where
  "open_world = start_world\<lparr>conns := [3 \<mapsto> open_conn], pending := [ReadOp 7 3 8 8],
     reported := (\<lambda>_. [])(3 := [True])\<rparr>"

lemma small_buffer_ok: "buf_ok small_buffer" "content small_buffer = []"
  by (simp_all add: small_buffer_def buf_ok_def content_def range_bytes_def max_size_def)

lemma open_world_ready: "ready 3 open_world"
  by (simp add: ready_def open_world_def open_conn_def reads_of_def window_def beginWrite_def
      writableBytes_def vec_size_def small_buffer_ok small_buffer_def)
    (simp add: small_buffer_def buf_ok_def max_size_def)

lemma plain_only_consumes: "only_consumes plain_env c"
  unfolding only_consumes_def
proof (intro allI impI)
  fix n w w' k
  assume k: "conns w c = Some k" "buf_ok (c_inputBuffer k)" and "on_message plain_env n c w = Inr w'"
  then have "w' = w\<lparr>conns := (conns w)(c \<mapsto> k\<lparr>c_inputBuffer := c_inputBuffer k\<rparr>)\<rparr>"
    by (simp add: plain_env_def map_upd_triv)
  with k show "\<exists>b m. w' = w\<lparr>conns := (conns w)(c \<mapsto> k\<lparr>c_inputBuffer := b\<rparr>)\<rparr> \<and> buf_ok b
      \<and> content b = drop m (content (c_inputBuffer k))"
    by (metis drop0)
qed


text \<open>
  C21: \<open>send\<close> on an idle connection. The message is queued in the output buffer and one send of
  exactly its bytes is started. When all of it was transmitted, the buffer is empty again.
  When only a part was transmitted (which \<open>async_send\<close> may do), the rest stays in the buffer with no
  operation outstanding that would transmit it.
\<close>

theorem send_one_message:
  assumes "conns w c = Some k" and "buf_ok (c_outputBuffer k)" and "content (c_outputBuffer k) = []"
    and "c_writeCompleteCallback k = None" and "pending w = []" and "length m \<le> max_size"
    and "send c m w = Inr w1"
  shows "\<exists>op. pending w1 = [op] \<and> sent_bytes op w1 = m
    \<and> (\<forall>data. length data \<le> length m \<longrightarrow>
         (\<exists>w2. complete env 0 Success data w1 = Inr w2 \<and> pending w2 = []
            \<and> unsent c w2 = drop (length data) m))"
proof -
  obtain b where w1: "w1 = w\<lparr>conns := (conns w)(c \<mapsto> k\<lparr>c_outputBuffer := b\<rparr>),
      pending := pending w @ [SendOp (c_socket k) c (peek b) (readableBytes b)]\<rparr>"
    and b: "buf_ok b" "content b = m"
    using send_eq [OF assms(1,2,6,7)] assms(3) by auto
  let ?op = "SendOp (c_socket k) c (peek b) (readableBytes b)"
  have len: "unat (readableBytes b) = length m" using b by (simp add: readable_content)
  have "\<exists>w2. complete env 0 Success data w1 = Inr w2 \<and> pending w2 = [] \<and> unsent c w2 = drop (length data) m"
    if "length data \<le> length m" for data
  proof -
    have p: "0 < length (pending w1)" "pending w1 ! 0 = ?op" "length data \<le> unat (readableBytes b)"
      "conns w1 c = Some (k\<lparr>c_outputBuffer := b\<rparr>)"
      using w1 assms(5) that len by simp_all
    from complete_send_eq [OF this, of env] b assms(4) that obtain b2 where
      "complete env 0 Success data w1 = Inr ((in_sock_thread (c_socket k) (drop_pending 0 w1))
         \<lparr>conns := (conns w1)(c \<mapsto> k\<lparr>c_outputBuffer := b2\<rparr>)\<rparr>)" "content b2 = drop (length data) m"
      by auto
    then show ?thesis using w1 assms(5) by (simp add: unsent_def)
  qed
  moreover have "sent_bytes ?op w1 = m"
    using b range_bytes_all [OF b(1)] by (simp add: sent_bytes_def w1)
  moreover have "pending w1 = [?op]" using w1 assms(5) by simp
  ultimately show ?thesis by blast
qed

definition idle_world :: conn_world where
  "idle_world = open_world\<lparr>pending := []\<rparr>"

theorem send_one_message_witness:
  "\<exists>w1 op. send 3 [1, 2, 3] idle_world = Inr w1 \<and> pending w1 = [op] \<and> sent_bytes op w1 = [1, 2, 3]
     \<and> (\<exists>w2. complete plain_env 0 Success [1] w1 = Inr w2 \<and> pending w2 = [] \<and> unsent 3 w2 = [2, 3])"
proof -
  have k: "conns idle_world 3 = Some open_conn" "buf_ok (c_outputBuffer open_conn)"
    "content (c_outputBuffer open_conn) = []" "c_writeCompleteCallback open_conn = None" "pending idle_world = []"
    "length [1::byte, 2, 3] \<le> max_size"
    by (simp_all add: idle_world_def open_world_def open_conn_def small_buffer_ok max_size_def)
  have "\<not> isl (send 3 [1, 2, 3] idle_world)" by code_simp
  then obtain w1 where w1: "send 3 [1, 2, 3] idle_world = Inr w1"
    by (cases "send 3 [1, 2, 3] idle_world") auto
  from send_one_message [OF k w1, of plain_env] obtain op where
    op: "pending w1 = [op]" "sent_bytes op w1 = [1, 2, 3]"
    and c: "\<And>data. length data \<le> 3 \<Longrightarrow> \<exists>w2. complete plain_env 0 Success data w1 = Inr w2 \<and> pending w2 = []
            \<and> unsent 3 w2 = drop (length data) [1, 2, 3]" by auto
  from w1 op c [of "[1]"] show ?thesis by auto
qed

text \<open>
  C31: two sends in a row. If \<open>send\<close> is called again before the first send completed, the second
  send covers the first message once more: the bytes of the first message are transmitted twice.
  And when both have completed, the second handler wants to remove more bytes than the output
  buffer holds: the assertion of \<open>Buffer::retrieve\<close> aborts the process.
\<close>

theorem overlapping_sends_abort:
  assumes "conns w c = Some k" and "buf_ok (c_outputBuffer k)" and "content (c_outputBuffer k) = []"
    and "c_writeCompleteCallback k = None" and "pending w = []" and "m1 \<noteq> []"
    and "length m1 + length m2 \<le> max_size" and "send c m1 w = Inr w1" and "send c m2 w1 = Inr w2"
  shows "\<exists>op1 op2 w3. pending w1 = [op1] \<and> sent_bytes op1 w1 = m1
    \<and> pending w2 = [op1, op2] \<and> sent_bytes op2 w2 = m1 @ m2
    \<and> complete env 0 Success m1 w2 = Inr w3 \<and> complete env 0 Success (m1 @ m2) w3 = Inl AssertionFailed"
proof -
  have l: "length m1 \<le> max_size" "length m2 \<le> max_size" using assms(7) by simp_all
  obtain b1 where w1: "w1 = w\<lparr>conns := (conns w)(c \<mapsto> k\<lparr>c_outputBuffer := b1\<rparr>),
      pending := [SendOp (c_socket k) c (peek b1) (readableBytes b1)]\<rparr>"
    and b1: "buf_ok b1" "content b1 = m1"
    using send_eq [OF assms(1,2) l(1) assms(8)] assms(3,5) by auto
  have k1: "conns w1 c = Some (k\<lparr>c_outputBuffer := b1\<rparr>)" using w1 by simp
  obtain b2 where w2: "w2 = w1\<lparr>conns := (conns w1)(c \<mapsto> k\<lparr>c_outputBuffer := b2\<rparr>),
      pending := pending w1 @ [SendOp (c_socket k) c (peek b2) (readableBytes b2)]\<rparr>"
    and b2: "buf_ok b2" "content b2 = m1 @ m2"
    using send_eq [OF k1 _ l(2) assms(9)] b1 by auto
  let ?op1 = "SendOp (c_socket k) c (peek b1) (readableBytes b1)"
  let ?op2 = "SendOp (c_socket k) c (peek b2) (readableBytes b2)"
  have r: "unat (readableBytes b1) = length m1" "unat (readableBytes b2) = length (m1 @ m2)"
    using b1 b2 by (simp_all add: readable_content)
  have p2: "pending w2 = [?op1, ?op2]" "conns w2 c = Some (k\<lparr>c_outputBuffer := b2\<rparr>)"
    using w2 w1 by simp_all
  obtain b3 where w3: "complete env 0 Success m1 w2 = Inr ((in_sock_thread (c_socket k) (drop_pending 0 w2))
         \<lparr>conns := (conns w2)(c \<mapsto> k\<lparr>c_outputBuffer := b3\<rparr>)\<rparr>)" and b3: "buf_ok b3" "content b3 = m2"
    using complete_send_eq [of 0 w2 "c_socket k" c "peek b1" "readableBytes b1" m1 "k\<lparr>c_outputBuffer := b2\<rparr>" env]
      p2 r b2 assms(4) by auto
  let ?w3 = "(in_sock_thread (c_socket k) (drop_pending 0 w2))\<lparr>conns := (conns w2)(c \<mapsto> k\<lparr>c_outputBuffer := b3\<rparr>)\<rparr>"
  have "complete env 0 Success (m1 @ m2) ?w3 = Inl AssertionFailed"
    using complete_send_eq [of 0 ?w3 "c_socket k" c "peek b2" "readableBytes b2" "m1 @ m2" "k\<lparr>c_outputBuffer := b3\<rparr>" env]
      p2 r b3 assms(4,6) by (simp add: Suc_le_eq)
  moreover have "sent_bytes ?op1 w1 = m1" "sent_bytes ?op2 w2 = m1 @ m2"
    using range_bytes_all b1 b2 k1 p2(2) by (simp_all add: sent_bytes_def)
  ultimately show ?thesis using w3 w1 p2(1) by auto
qed

theorem overlapping_sends_abort_witness:
  "\<exists>w1 w2 w3. send 3 [1, 2] idle_world = Inr w1 \<and> send 3 [3] w1 = Inr w2
     \<and> complete plain_env 0 Success [1, 2] w2 = Inr w3
     \<and> complete plain_env 0 Success [1, 2, 3] w3 = Inl AssertionFailed"
proof -
  have k: "conns idle_world 3 = Some open_conn" "buf_ok (c_outputBuffer open_conn)"
    "content (c_outputBuffer open_conn) = []" "c_writeCompleteCallback open_conn = None" "pending idle_world = []"
    "[1::byte, 2] \<noteq> []" "length [1::byte, 2] + length [3::byte] \<le> max_size"
    by (simp_all add: idle_world_def open_world_def open_conn_def small_buffer_ok max_size_def)
  have "\<not> isl (bindR (send 3 [1, 2] idle_world) (send 3 [3]))" by code_simp
  then obtain w1 w2 where w: "send 3 [1, 2] idle_world = Inr w1" "send 3 [3] w1 = Inr w2"
    by (cases "send 3 [1, 2] idle_world"; cases "bindR (send 3 [1, 2] idle_world) (send 3 [3])") auto
  from overlapping_sends_abort [OF k w, of plain_env] w show ?thesis by auto
qed

subsection \<open>Stopping and starting to read\<close>

text \<open>A message callback that leaves the input for later.\<close>

definition idle_message :: "'a conn_world_scheme conn_env \<Rightarrow> conn_id \<Rightarrow> tcp_connection \<Rightarrow> bool" where
  "idle_message env c k \<longleftrightarrow> (\<exists>n. c_messageCallback k = Some (UserCallback n) \<and> (\<forall>w. on_message env n c w = Inr w))"

lemma with_shared_Inr:
  "conns w c = Some k \<Longrightarrow> 1 \<le> c_refs k \<Longrightarrow> with_shared c Inr w = Inr w"
  by (simp add: with_shared_def hold_conn_def release_conn_def upd_conn_def with_conn_def map_upd_triv)

lemma idle_message_call:
  assumes "idle_message env c k" and "conns w c = Some k'" and "1 \<le> c_refs k'"
  shows "(case c_messageCallback k of None \<Rightarrow> Inr w
    | Some cb \<Rightarrow> with_shared c (invoke_message env cb c) w) = Inr w"
proof -
  obtain n where n: "c_messageCallback k = Some (UserCallback n)" "\<And>w. on_message env n c w = Inr w"
    using assms(1) by (auto simp: idle_message_def)
  then have "invoke_message env (UserCallback n) c = Inr" by (simp add: invoke_message_def fun_eq_iff)
  with n(1) with_shared_Inr [OF assms(2,3)] show ?thesis by simp
qed

text \<open>A read into a window at \<open>off\<close>, wherever the write index is by then, with room for the next read.\<close>

lemma complete_read_at:
  assumes "i < length (pending w)" and "pending w ! i = ReadOp s c off len"
    and "conns w c = Some k" and "idle_message env c k" and "c_reading k" and "1 \<le> c_refs k"
    and "data \<noteq> []" and "length data \<le> unat len" and "b = c_inputBuffer k" and "buf_ok b"
    and "unat off \<le> unat (writerIndex b)" and "2 * length data \<le> unat (writableBytes b)"
    and "v = take (unat off) (buffer_vec b) @ data @ drop (unat off + length data) (buffer_vec b)"
    and "b' = b\<lparr>buffer_vec := v, writerIndex := writerIndex b + of_nat (length data)\<rparr>"
  shows "complete env i Success data w =
     Inr ((in_sock_thread s (drop_pending i w))\<lparr>conns := (conns w)(c \<mapsto> k\<lparr>c_inputBuffer := b'\<rparr>),
       pending := pending (drop_pending i w) @ [window c (k\<lparr>c_inputBuffer := b'\<rparr>)]\<rparr>)"
proof -
  let ?W = "unat (writerIndex b)" and ?n = "length data"
  have bounds: "?W + 2 * ?n \<le> length (buffer_vec b)" "length (buffer_vec b) \<le> max_size"
    using assms(10,12,7) by (auto simp: unat_writableBytes buf_ok_nat)
  have n: "unat (of_nat ?n :: size_t) = ?n" using bounds by (intro unat_of_nat_size_t) simp
  have lv: "length v = length (buffer_vec b)" using bounds assms(11,13) by simp
  then have wr: "writableBytes (b\<lparr>buffer_vec := v\<rparr>) = writableBytes b"
    by (simp add: writableBytes_def vec_size_def)
  have W: "unat (writerIndex b') = ?W + ?n"
    using bounds n assms(14) by (simp add: unat_plus_size_t max_size_def)
  have "writableBytes b' = writableBytes b - of_nat ?n"
    using lv assms(14) by (simp add: writableBytes_def vec_size_def)
  moreover have "unat (writableBytes b') = length (buffer_vec b) - (?W + ?n)"
    using W lv bounds assms(14) by (subst unat_writableBytes) auto
  ultimately have room: "\<not> writableBytes b' < of_nat ?n" "of_nat ?n \<le> writableBytes b'"
    using bounds n by (auto simp: word_less_nat_alt word_le_nat_alt)
  have "std_copy data (unat off) (buffer_vec b) = Inr v"
    using bounds assms(11,13) by (simp add: std_copy_def)
  moreover have "hasWritten (of_nat ?n) (b\<lparr>buffer_vec := v\<rparr>) = Inr b'"
    using assms(12,14) n wr by (simp add: hasWritten_def word_le_nat_alt)
  moreover have "ensureWritableBytes (of_nat ?n) b' = Inr b'"
    using room by (simp add: ensureWritableBytes_def)
  moreover have "(case c_messageCallback k of None \<Rightarrow> Inr w1
      | Some cb \<Rightarrow> with_shared c (invoke_message env cb c) w1) = Inr w1"
    if "w1 = (in_sock_thread s (drop_pending i w))\<lparr>conns := (conns w)(c \<mapsto> k\<lparr>c_inputBuffer := b'\<rparr>)\<rparr>" for w1
    using idle_message_call [OF assms(4), of w1] that assms(6) by simp
  ultimately show ?thesis
    using assms(1-3,5,7-9)
    by (simp add: complete_def store_input_def readHandler_def read_again_def async_read_some_def
        with_conn_def upd_conn_def window_def Let_def)
qed

text \<open>
  C32: \<open>stopRead\<close> does not withdraw the outstanding read, so \<open>stopRead\<close> followed by \<open>startRead\<close>
  leaves two reads into the same part of the buffer. When both deliver \<open>n\<close> bytes, the second
  delivery overwrites the first: of \<open>d1\<close> and \<open>d2\<close> only \<open>d2\<close> is in the buffer, followed by \<open>n\<close> bytes
  that were not received.
\<close>

theorem stop_start_read_loses_bytes:
  assumes "conns w c = Some k" and "c_loop k = Some l" and "loops w l = Some e"
    and "el_threadId e = this_thread w" and "pending w = [window c k]" and "c_reading k" and "1 \<le> c_refs k"
    and "idle_message env c k" and "buf_ok (c_inputBuffer k)" and "content (c_inputBuffer k) = []"
    and "d1 \<noteq> []" and "length d2 = length d1" and "3 * length d1 \<le> unat (writableBytes (c_inputBuffer k))"
  shows "\<exists>w1 w2 w3 rest. bindR (stopRead c w) (startRead c) = Inr w1
    \<and> pending w1 = [window c k, window c k]
    \<and> complete env 0 Success d1 w1 = Inr w2 \<and> input c w2 = d1
    \<and> complete env 0 Success d2 w2 = Inr w3 \<and> input c w3 = d2 @ rest \<and> length rest = length d1"
proof -
  let ?b = "c_inputBuffer k" and ?n = "length d1"
  define w1 where "w1 = w\<lparr>pending := [window c k, window c k]\<rparr>"
  have "bindR (stopRead c w) (startRead c) = Inr w1"
    using assms(1-6)
    by (simp add: stopRead_def startRead_def stopReadInLoop_def startReadInLoop_def with_conn_def upd_conn_def
        loop_simps async_read_some_def window_def w1_def map_upd_triv)
  note 1 = this
  have off: "unat (readerIndex ?b) = unat (writerIndex ?b)"
    using length_content [OF assms(9)] assms(9,10) by (simp add: buf_ok_nat)
  let ?W = "unat (writerIndex ?b)"
  have bounds: "?W + 3 * ?n \<le> length (buffer_vec ?b)" "length (buffer_vec ?b) \<le> max_size"
    using assms(9,11,13) by (auto simp: unat_writableBytes buf_ok_nat)
  have n: "unat (of_nat ?n :: size_t) = ?n" using bounds by (intro unat_of_nat_size_t) simp
  define v1 where "v1 = take ?W (buffer_vec ?b) @ d1 @ drop (?W + ?n) (buffer_vec ?b)"
  define b1 where "b1 = ?b\<lparr>buffer_vec := v1, writerIndex := writerIndex ?b + of_nat ?n\<rparr>"
  define w2 where "w2 = (in_sock_thread (c_socket k) (drop_pending 0 w1))\<lparr>conns := (conns w1)(c \<mapsto> k\<lparr>c_inputBuffer := b1\<rparr>),
       pending := pending (drop_pending 0 w1) @ [window c (k\<lparr>c_inputBuffer := b1\<rparr>)]\<rparr>"
  have 2: "complete env 0 Success d1 w1 = Inr w2"
    unfolding w2_def using assms n bounds
    by (intro complete_read_at [where b = ?b and v = v1 and len = "writableBytes ?b" and off = "beginWrite ?b"])
      (auto simp: w1_def window_def b1_def v1_def beginWrite_def)
  have lv1: "length v1 = length (buffer_vec ?b)" using bounds by (simp add: v1_def)
  have W1: "unat (writerIndex b1) = ?W + ?n"
    using bounds n by (simp add: b1_def unat_plus_size_t max_size_def)
  have ok1: "buf_ok b1" using assms(9) W1 lv1 bounds off by (simp add: buf_ok_nat b1_def)
  have in2: "input c w2 = d1"
    using W1 off bounds by (simp add: input_def w2_def content_def range_bytes_def b1_def v1_def)
  have wr1: "unat (writableBytes b1) = length (buffer_vec ?b) - (?W + ?n)"
    using W1 lv1 bounds by (subst unat_writableBytes) (auto simp: b1_def)
  define v2 where "v2 = take ?W v1 @ d2 @ drop (?W + ?n) v1"
  define b2 where "b2 = b1\<lparr>buffer_vec := v2, writerIndex := writerIndex b1 + of_nat ?n\<rparr>"
  define w3 where "w3 = (in_sock_thread (c_socket k) (drop_pending 0 w2))\<lparr>conns := (conns w2)(c \<mapsto> k\<lparr>c_inputBuffer := b2\<rparr>),
       pending := pending (drop_pending 0 w2) @ [window c (k\<lparr>c_inputBuffer := b2\<rparr>)]\<rparr>"
  have "complete env 0 Success d2 w2 = Inr ((in_sock_thread (c_socket k) (drop_pending 0 w2))
      \<lparr>conns := (conns w2)(c \<mapsto> (k\<lparr>c_inputBuffer := b1\<rparr>)\<lparr>c_inputBuffer := b2\<rparr>),
       pending := pending (drop_pending 0 w2) @ [window c ((k\<lparr>c_inputBuffer := b1\<rparr>)\<lparr>c_inputBuffer := b2\<rparr>)]\<rparr>)"
    using assms n bounds wr1 W1 ok1
    by (intro complete_read_at [where b = b1 and v = v2 and len = "writableBytes ?b" and off = "beginWrite ?b"])
      (auto simp: w2_def w1_def window_def b2_def v2_def b1_def beginWrite_def idle_message_def)
  then have 3: "complete env 0 Success d2 w2 = Inr w3" by (simp add: w3_def)
  have W2: "unat (writerIndex b2) = ?W + 2 * ?n"
    using bounds n W1 by (simp add: b2_def unat_plus_size_t max_size_def)
  have "input c w3 = d2 @ take ?n (drop (?W + ?n) v1)"
    using W2 off bounds assms(12) lv1
    by (simp add: input_def w3_def content_def range_bytes_def b2_def v2_def b1_def)
  moreover have "length (take ?n (drop (?W + ?n) v1)) = ?n" using bounds lv1 by simp
  ultimately show ?thesis using 1 2 3 in2 w1_def by (intro exI) auto
qed

theorem stop_start_read_loses_bytes_witness:
  "\<exists>w1 w2 w3 rest. bindR (stopRead 3 open_world) (startRead 3) = Inr w1
     \<and> complete plain_env 0 Success [1, 2] w1 = Inr w2 \<and> input 3 w2 = [1, 2]
     \<and> complete plain_env 0 Success [3, 4] w2 = Inr w3 \<and> input 3 w3 = [3, 4] @ rest"
proof -
  let ?e = "\<lparr>el_threadId = 1, el_work = True, el_stopped = False, el_posted = [],
    el_timers = new_TimerQueue, el_context = None\<rparr>"
  have w: "conns open_world 3 = Some open_conn" "c_loop open_conn = Some 0" "loops open_world 0 = Some ?e"
    "el_threadId ?e = this_thread open_world" "pending open_world = [window 3 open_conn]"
    "c_reading open_conn" "1 \<le> c_refs open_conn" "idle_message plain_env 3 open_conn"
    "buf_ok (c_inputBuffer open_conn)" "content (c_inputBuffer open_conn) = []"
    by (simp_all add: open_world_def start_world_def open_conn_def window_def idle_message_def plain_env_def
        small_buffer_ok beginWrite_def writableBytes_def vec_size_def)
      (simp_all add: small_buffer_def)
  have d: "[1::byte, 2] \<noteq> []" "length [3::byte, 4] = length [1::byte, 2]"
    "3 * length [1::byte, 2] \<le> unat (writableBytes (c_inputBuffer open_conn))"
    by (simp_all add: open_conn_def small_buffer_def writableBytes_def vec_size_def)
  from stop_start_read_loses_bytes [OF w d] show ?thesis by blast
qed

text \<open>
  C33: \<open>startRead\<close> on a connection whose input buffer is full starts a read of no bytes: only
  \<open>readHandler\<close> makes room, not \<open>startReadInLoop\<close>. Such a read completes at once with no bytes, the
  message callback is called without news, and the same read of no bytes is started again: the
  loop spins for as long as the callback does not consume.
\<close>

theorem start_read_full_buffer_spins:
  assumes "conns w c = Some k" and "c_loop k = Some l" and "loops w l = Some e"
    and "el_threadId e = this_thread w" and "\<not> c_reading k" and "1 \<le> c_refs k"
    and "idle_message env c k" and "writableBytes (c_inputBuffer k) = 0" and "pending w = []"
    and "sock_loop w (c_socket k) = Some l"
  shows "\<exists>w1. startRead c w = Inr w1 \<and> pending w1 = [ReadOp (c_socket k) c (beginWrite (c_inputBuffer k)) 0]
    \<and> complete env 0 Success [] w1 = Inr w1"
proof -
  define k1 where "k1 = k\<lparr>c_reading := True\<rparr>"
  define w1 where "w1 = w\<lparr>conns := (conns w)(c \<mapsto> k1),
    pending := [ReadOp (c_socket k) c (beginWrite (c_inputBuffer k)) 0]\<rparr>"
  have 1: "startRead c w = Inr w1"
    using assms by (simp add: startRead_def startReadInLoop_def with_conn_def upd_conn_def loop_simps
        async_read_some_def w1_def k1_def)
  have in_thread: "in_sock_thread (c_socket k) (drop_pending 0 w1) = w1\<lparr>pending := []\<rparr>"
    using assms(3,4,10) by (simp add: in_sock_thread_def drop_pending_def w1_def)
  have idle: "(case c_messageCallback k1 of None \<Rightarrow> Inr w2
      | Some cb \<Rightarrow> with_shared c (invoke_message env cb c) w2) = Inr w2"
    if "conns w2 c = Some k1" for w2
    using idle_message_call [of env c k1 w2 k1] assms(6,7) that by (simp add: idle_message_def k1_def)
  have k: "conns w1 c = Some k1" "c_inputBuffer k1 = c_inputBuffer k" "c_reading k1" "c_socket k1 = c_socket k"
    by (simp_all add: w1_def k1_def)
  let ?w = "w1\<lparr>pending := []\<rparr>"
  have "k1\<lparr>c_inputBuffer := c_inputBuffer k\<rparr> = k1" by (simp add: k1_def)
  then have upd: "upd_conn c (\<lambda>k'. k'\<lparr>c_inputBuffer := c_inputBuffer k\<rparr>) ?w = Inr ?w"
    unfolding upd_conn_def with_conn_def using k(1) by (simp add: map_upd_triv del: tcp_connection.update_convs)
  have "hasWritten 0 (c_inputBuffer k) = Inr (c_inputBuffer k)"
    by (simp add: hasWritten_def)
  then have "complete env 0 Success [] w1 = read_again c 0 ?w"
    using in_thread idle [of ?w] k upd
    by (simp add: complete_def w1_def [THEN arg_cong [of _ _ pending]] readHandler_def with_conn_def Let_def)
  also have "\<dots> = Inr w1"
    using k upd assms(8)
    by (simp add: read_again_def ensureWritableBytes_def async_read_some_def with_conn_def)
      (simp add: w1_def)
  finally have "complete env 0 Success [] w1 = Inr w1" .
  with 1 show ?thesis by (auto simp: w1_def)
qed

text \<open>The same connection with all eight bytes of room used, and reading stopped.\<close>

definition full_world :: conn_world where
  "full_world = open_world\<lparr>conns := [3 \<mapsto> open_conn\<lparr>c_reading := False,
     c_inputBuffer := small_buffer\<lparr>writerIndex := 16\<rparr>\<rparr>], pending := []\<rparr>"

theorem start_read_full_buffer_spins_witness:
  "\<exists>w1. startRead 3 full_world = Inr w1 \<and> pending w1 = [ReadOp 7 3 16 0]
     \<and> complete plain_env 0 Success [] w1 = Inr w1"
proof -
  let ?e = "\<lparr>el_threadId = 1, el_work = True, el_stopped = False, el_posted = [],
    el_timers = new_TimerQueue, el_context = None\<rparr>"
  let ?k = "open_conn\<lparr>c_reading := False, c_inputBuffer := small_buffer\<lparr>writerIndex := 16\<rparr>\<rparr>"
  have "conns full_world 3 = Some ?k" "c_loop ?k = Some 0" "loops full_world 0 = Some ?e"
    "el_threadId ?e = this_thread full_world" "\<not> c_reading ?k" "1 \<le> c_refs ?k" "idle_message plain_env 3 ?k"
    "writableBytes (c_inputBuffer ?k) = 0" "pending full_world = []"
    "sock_loop full_world (c_socket ?k) = Some 0"
    by (simp_all add: full_world_def open_world_def start_world_def open_conn_def idle_message_def
        plain_env_def writableBytes_def vec_size_def small_buffer_def)
  from start_read_full_buffer_spins [OF this] show ?thesis
    by (simp add: open_conn_def beginWrite_def small_buffer_def)
qed

end
