(* ===== verification/Acceptor.thy ===== *)
theory Acceptor
  imports ConnectionIO
begin

text \<open>
  The acceptor of incoming connections, \<open>src/src/net/Acceptor.h\<close> and \<open>Acceptor.cpp\<close>. It keeps one
  accept outstanding: \<open>listenInLoop\<close> takes the next loop of the pool, builds a socket on it and
  starts an accept; \<open>acceptHandler\<close> hands the connected socket over and listens again.

  The world is extended by the acceptor object (\<open>None\<close> once it is destroyed) and by the thread pool
  that its \<open>pool_\<close> points to. The callback for new connections is an argument.
\<close>

section \<open>State and operations\<close>

record acceptor =
  ac_loop :: "loop_id option"
  ac_newConnectionCallback :: bool      \<comment> \<open>\<open>newConnectionCallback_\<close> is not empty\<close>
  ac_listenning :: bool
  ac_pool :: bool                       \<comment> \<open>\<open>pool_\<close> is not null\<close>
  ac_newSockBindedLoop :: "loop_id option"

record accept_world = conn_world +
  acceptor :: "acceptor option"
  io_pool :: thread_pool

definition with_acceptor :: "(acceptor \<Rightarrow> 'b result) \<Rightarrow> 'a accept_world_scheme \<Rightarrow> 'b result" where
  "with_acceptor f w = (case acceptor w of None \<Rightarrow> Inl UseAfterFree | Some a \<Rightarrow> f a)"

text \<open>
  The constructor; \<open>opened\<close> is the result of opening a socket on the loop, binding it to the address,
  with or without \<open>reuse_address\<close>, and listening.
\<close>

definition new_Acceptor :: "(loop_id \<Rightarrow> endpoint \<Rightarrow> bool \<Rightarrow> unit result) \<Rightarrow> loop_id option \<Rightarrow> endpoint \<Rightarrow> bool \<Rightarrow> bool \<Rightarrow>
    'a accept_world_scheme \<Rightarrow> 'a accept_world_scheme result" where
  "new_Acceptor opened loop listenAddr reuseport ioPool w =
     (case loop of None \<Rightarrow> Inl NullDereference | Some l \<Rightarrow>
        bindR (opened l listenAddr reuseport) (\<lambda>_.
          Inr (w\<lparr>acceptor := Some \<lparr>ac_loop = loop, ac_newConnectionCallback = False,
            ac_listenning = False, ac_pool = ioPool, ac_newSockBindedLoop = None\<rparr>\<rparr>)))"

definition listenning :: "acceptor \<Rightarrow> bool" where
  "listenning a = ac_listenning a"

definition setNewConnectionCallback :: "bool \<Rightarrow> 'a accept_world_scheme \<Rightarrow> 'a accept_world_scheme result" where
  "setNewConnectionCallback cb w =
     with_acceptor (\<lambda>a. Inr (w\<lparr>acceptor := Some (a\<lparr>ac_newConnectionCallback := cb\<rparr>)\<rparr>)) w"

text \<open>A new socket on loop \<open>l\<close>, and an accept into it.\<close>

definition async_accept :: "loop_id \<Rightarrow> 'a accept_world_scheme \<Rightarrow> 'a accept_world_scheme result" where
  "async_accept l w =
     with_loop l (\<lambda>e. let s = next_sock w in
       Inr (w\<lparr>next_sock := s + 1, sock_loop := (sock_loop w)(s \<mapsto> l), pending := pending w @ [AcceptOp s]\<rparr>)) w"

definition listenInLoop :: "'a accept_world_scheme \<Rightarrow> 'a accept_world_scheme result" where
  "listenInLoop w =
     with_acceptor (\<lambda>a. case ac_loop a of None \<Rightarrow> Inr w | Some loop \<Rightarrow>
       let a1 = a\<lparr>ac_listenning := True\<rparr> in
       if ac_pool a then
         bindR (getNextLoop w (io_pool w)) (\<lambda>(ioLoop, p).
           async_accept ioLoop
             (w\<lparr>acceptor := Some (a1\<lparr>ac_newSockBindedLoop := Some ioLoop\<rparr>), io_pool := p\<rparr>))
       else
         async_accept loop (w\<lparr>acceptor := Some (a1\<lparr>ac_newSockBindedLoop := Some loop\<rparr>)\<rparr>)) w"

definition ac_listen :: "'a accept_world_scheme \<Rightarrow> 'a accept_world_scheme result" where
  "ac_listen w =
     with_acceptor (\<lambda>a. case ac_loop a of None \<Rightarrow> Inr w
       | Some loop \<Rightarrow> runInLoop loop AcceptorListenInLoop listenInLoop w) w"

definition acceptHandler :: "(sock_id \<Rightarrow> loop_id option \<Rightarrow> 'a accept_world_scheme \<Rightarrow> 'a accept_world_scheme result) \<Rightarrow>
    sock_id \<Rightarrow> error_code \<Rightarrow> 'a accept_world_scheme \<Rightarrow> 'a accept_world_scheme result" where
  "acceptHandler on_new newSock error w =
     (if error = Success then
        with_acceptor (\<lambda>a.
          bindR (if ac_newConnectionCallback a then on_new newSock (ac_newSockBindedLoop a) w else Inr w)
            ac_listen) w
      else Inr w)"

text \<open>The environment completes the \<open>i\<close>-th operation, an accept, in the acceptor's thread.\<close>

definition in_acceptor_thread :: "'a accept_world_scheme \<Rightarrow> 'a accept_world_scheme" where
  "in_acceptor_thread w =
     (case acceptor w of None \<Rightarrow> w | Some a \<Rightarrow>
       (case ac_loop a of None \<Rightarrow> w | Some l \<Rightarrow>
         (case loops w l of None \<Rightarrow> w | Some e \<Rightarrow> w\<lparr>this_thread := el_threadId e\<rparr>)))"

definition complete_accept :: "(sock_id \<Rightarrow> loop_id option \<Rightarrow> 'a accept_world_scheme \<Rightarrow> 'a accept_world_scheme result) \<Rightarrow>
    nat \<Rightarrow> error_code \<Rightarrow> 'a accept_world_scheme \<Rightarrow> 'a accept_world_scheme result" where
  "complete_accept on_new i error w =
     (if i < length (pending w) then
        (case pending w ! i of
           AcceptOp s \<Rightarrow> acceptHandler on_new s error (in_acceptor_thread (drop_pending i w))
         | _ \<Rightarrow> Inr w)
      else Inr w)"

end
