(* ===== verification/TcpServer.thy ===== *)
theory TcpServer
  imports Acceptor "HOL-Library.List_Lexorder" "HOL-Library.Char_ord"
begin

text \<open>
  The TCP server, \<open>src/src/net/TcpServer.h\<close> and \<open>TcpServer.cpp\<close>: it owns the acceptor, the thread
  pool and the connections, which it keeps in a map under their names until they close.

  The server's close callback for its connections, \<open>removeConnection\<close>, and its function objects
  complete the environment of the connections (\<open>server_env\<close>); \<open>u\<close> is the rest of it, with the user's
  callbacks. \<open>std::map\<close> is an association list in the order of the keys.
\<close>

section \<open>State\<close>

record tcp_server =
  sv_loop :: loop_id
  sv_ipPort :: string
  sv_name :: string
  sv_connectionCallback :: "callback option"
  sv_messageCallback :: "callback option"
  sv_writeCompleteCallback :: "callback option"
  sv_threadInitCallback :: "nat option"      \<comment> \<open>which of the user's functions, if any\<close>
  sv_nextConnId :: int
  sv_connections :: "(string \<times> conn_id) list"
  sv_reset :: "string list"

text \<open>
  \<open>sv_reset\<close>: the keys of \<open>connections_\<close> whose pointer the destructor has reset; the other keys are in
  \<open>sv_connections\<close>.
\<close>

text \<open>\<open>threadPool_\<close> and \<open>acceptor_\<close> are the pool and the acceptor of the world.\<close>

record server_world = accept_world +
  server :: "tcp_server option"

fun map_put :: "string \<Rightarrow> 'v \<Rightarrow> (string \<times> 'v) list \<Rightarrow> (string \<times> 'v) list" where
  "map_put k v [] = [(k, v)]"
| "map_put k v ((k', v') # xs) =
     (if k = k' then (k, v) # xs else if k < k' then (k, v) # (k', v') # xs else (k', v') # map_put k v xs)"

definition map_erase :: "string \<Rightarrow> (string \<times> 'v) list \<Rightarrow> (string \<times> 'v) list" where
  "map_erase k xs = filter (\<lambda>(k', v). k' \<noteq> k) xs"

definition with_server :: "(tcp_server \<Rightarrow> 'b result) \<Rightarrow> 'a server_world_scheme \<Rightarrow> 'b result" where
  "with_server f w = (case server w of None \<Rightarrow> Inl UseAfterFree | Some sv \<Rightarrow> f sv)"

section \<open>Operations\<close>

datatype server_option = kNoReusePort | kReusePort

definition new_TcpServer :: "(loop_id \<Rightarrow> endpoint \<Rightarrow> bool \<Rightarrow> unit result) \<Rightarrow> loop_id \<Rightarrow> endpoint \<Rightarrow> string \<Rightarrow>
    server_option \<Rightarrow> 'a server_world_scheme \<Rightarrow> 'a server_world_scheme result" where
  "new_TcpServer opened loop listenAddr nameArg option w =
     bindR (new_Acceptor opened (Some loop) listenAddr (option = kReusePort) True
              (w\<lparr>io_pool := new_EventLoopThreadPool loop nameArg\<rparr>)) (\<lambda>w1.
     setNewConnectionCallback True (w1\<lparr>server := Some
       \<lparr>sv_loop = loop, sv_ipPort = endPoint2ipPort listenAddr, sv_name = nameArg,
        sv_connectionCallback = Some DefaultCallback, sv_messageCallback = Some DefaultCallback,
        sv_writeCompleteCallback = None, sv_threadInitCallback = None, sv_nextConnId = 1,
        sv_connections = [], sv_reset = []\<rparr>\<rparr>))"

definition upd_server :: "(tcp_server \<Rightarrow> tcp_server) \<Rightarrow> 'a server_world_scheme \<Rightarrow> 'a server_world_scheme result" where
  "upd_server f w = with_server (\<lambda>sv. Inr (w\<lparr>server := Some (f sv)\<rparr>)) w"

definition sv_setConnectionCallback :: "callback option \<Rightarrow> 'a server_world_scheme \<Rightarrow> 'a server_world_scheme result" where
  "sv_setConnectionCallback cb = upd_server (\<lambda>sv. sv\<lparr>sv_connectionCallback := cb\<rparr>)"

definition sv_setMessageCallback :: "callback option \<Rightarrow> 'a server_world_scheme \<Rightarrow> 'a server_world_scheme result" where
  "sv_setMessageCallback cb = upd_server (\<lambda>sv. sv\<lparr>sv_messageCallback := cb\<rparr>)"

definition sv_setWriteCompleteCallback :: "callback option \<Rightarrow> 'a server_world_scheme \<Rightarrow> 'a server_world_scheme result" where
  "sv_setWriteCompleteCallback cb = upd_server (\<lambda>sv. sv\<lparr>sv_writeCompleteCallback := cb\<rparr>)"

definition setThreadInitCallback :: "nat option \<Rightarrow> 'a server_world_scheme \<Rightarrow> 'a server_world_scheme result" where
  "setThreadInitCallback cb = upd_server (\<lambda>sv. sv\<lparr>sv_threadInitCallback := cb\<rparr>)"

definition sv_setThreadNum :: "int \<Rightarrow> 'a server_world_scheme \<Rightarrow> 'a server_world_scheme result" where
  "sv_setThreadNum numThreads w =
     with_server (\<lambda>sv. assertR (0 \<le> numThreads) (
       Inr (w\<lparr>io_pool := tp_setThreadNum numThreads (io_pool w)\<rparr>))) w"

definition sv_start :: "'a server_world_scheme conn_env \<Rightarrow> (nat \<Rightarrow> tid \<times> loop_id) \<Rightarrow> 'a server_world_scheme \<Rightarrow>
    'a server_world_scheme result" where
  "sv_start u spawn w =
     with_server (\<lambda>sv.
       bindR (tp_start spawn (map_option (on_thread_init u) (sv_threadInitCallback sv)) (io_pool w) w) (\<lambda>(p, w1).
       let w2 = w1\<lparr>io_pool := p\<rparr> in
       with_acceptor (\<lambda>a. assertR (\<not> listenning a) (
         runInLoop (sv_loop sv) AcceptorListen ac_listen w2)) w2)) w"

definition sv_removeConnectionInLoop :: "'a server_world_scheme conn_env \<Rightarrow> conn_id \<Rightarrow> 'a server_world_scheme \<Rightarrow>
    'a server_world_scheme result" where
  "sv_removeConnectionInLoop u c w =
     with_server (\<lambda>sv. bindR (assertInLoopThread (sv_loop sv) w) (\<lambda>_.
     with_conn c (\<lambda>k.
       bindR (case map_of (sv_connections sv) (c_name k) of
           Some c' \<Rightarrow> release_conn c'
             (w\<lparr>server := Some (sv\<lparr>sv_connections := map_erase (c_name k) (sv_connections sv)\<rparr>)\<rparr>)
         | None \<Rightarrow>
             if c_name k \<in> set (sv_reset sv)
             then Inr (w\<lparr>server := Some (sv\<lparr>sv_reset := removeAll (c_name k) (sv_reset sv)\<rparr>)\<rparr>)
             else Inl AssertionFailed) (\<lambda>w2.
       case c_loop k of None \<Rightarrow> Inr w2
       | Some ioLoop \<Rightarrow> runInLoop_shared ioLoop (ConnectDestroyed c) c (connectDestroyed u c) w2)) w)) w"

definition sv_removeConnection :: "'a server_world_scheme conn_env \<Rightarrow> conn_id \<Rightarrow> 'a server_world_scheme \<Rightarrow>
    'a server_world_scheme result" where
  "sv_removeConnection u c w =
     with_server (\<lambda>sv.
       runInLoop_shared (sv_loop sv) (RemoveConnectionInLoop c) c (sv_removeConnectionInLoop u c) w) w"

text \<open>The function objects of the server and its acceptor, and the environment of its connections.\<close>

fun server_task :: "'a server_world_scheme conn_env \<Rightarrow> closure \<Rightarrow> 'a server_world_scheme \<Rightarrow>
    'a server_world_scheme result" where
  "server_task u (RemoveConnectionInLoop c) w = bindR (sv_removeConnectionInLoop u c w) (release_conn c)"
| "server_task u AcceptorListen w = ac_listen w"
| "server_task u AcceptorListenInLoop w = listenInLoop w"
| "server_task u f w = on_task u f w"

definition server_env :: "'a server_world_scheme conn_env \<Rightarrow> 'a server_world_scheme conn_env" where
  "server_env u = u\<lparr>on_close := sv_removeConnection u, on_task := server_task u\<rparr>"

definition conn_name :: "tcp_server \<Rightarrow> string" where
  "conn_name sv = sv_name sv @ sv_ipPort sv @ ''#'' @ show_int (sv_nextConnId sv)"

text \<open>The four callbacks that a new connection gets.\<close>

definition sv_configure :: "tcp_server \<Rightarrow> conn_id \<Rightarrow> 'a conn_world_scheme \<Rightarrow> 'a conn_world_scheme result" where
  "sv_configure sv conn w =
     bindR (setConnectionCallback conn (sv_connectionCallback sv) w) (\<lambda>w1.
     bindR (setMessageCallback conn (sv_messageCallback sv) w1) (\<lambda>w2.
     bindR (setWriteCompleteCallback conn (sv_writeCompleteCallback sv) w2)
       (setCloseCallback conn True)))"

definition sv_newConnection :: "'a server_world_scheme conn_env \<Rightarrow> sock_id \<Rightarrow> loop_id option \<Rightarrow>
    'a server_world_scheme \<Rightarrow> 'a server_world_scheme result" where
  "sv_newConnection u sock sockBindedLoop w =
     with_server (\<lambda>sv. bindR (assertInLoopThread (sv_loop sv) w) (\<lambda>_.
       case sockBindedLoop of None \<Rightarrow> Inl AssertionFailed | Some ioLoop \<Rightarrow>
         let connName = conn_name sv in
         bindR (incr_int (sv_nextConnId sv)) (\<lambda>n.
         bindR (new_TcpConnection (server_env u) (Some ioLoop) connName sock
                  (w\<lparr>server := Some (sv\<lparr>sv_nextConnId := n\<rparr>)\<rparr>)) (\<lambda>(conn, w1).
         bindR (hold_conn conn
                  (w1\<lparr>server := Some (sv\<lparr>sv_nextConnId := n,
                         sv_connections := map_put connName conn (sv_connections sv)\<rparr>)\<rparr>)) (\<lambda>w2.
         bindR (case map_of (sv_connections sv) connName of None \<Rightarrow> Inr w2
                | Some old \<Rightarrow> release_conn old w2) (\<lambda>w3.
         bindR (sv_configure sv conn w3) (\<lambda>w4.
         bindR (runInLoop_shared ioLoop (ConnectEstablished conn) conn
                  (connectEstablished (server_env u) conn) w4)
           (release_conn conn)))))))) w"

text \<open>
  The destructor. The loop over the connections visits the entries in the order of the keys; an entry
  that a callback removes before it is visited is not visited. The members go away afterwards: the
  pointers left in the map, the acceptor, and the pool when nobody else has a pointer to it, which stops
  its loops (\<open>~EventLoopThread\<close>).
\<close>

fun destroy_connections :: "'a server_world_scheme conn_env \<Rightarrow> string list \<Rightarrow>
    'a server_world_scheme \<Rightarrow> 'a server_world_scheme result" where
  "destroy_connections u [] w = Inr w"
| "destroy_connections u (name # rest) w =
     with_server (\<lambda>sv. case map_of (sv_connections sv) name of
         None \<Rightarrow> destroy_connections u rest w
       | Some conn \<Rightarrow>
           let w1 = w\<lparr>server := Some (sv\<lparr>sv_connections := map_erase name (sv_connections sv),
                        sv_reset := name # sv_reset sv\<rparr>)\<rparr> in
           with_conn conn (\<lambda>k.
           bindR (case c_loop k of None \<Rightarrow> Inr w1
                | Some ioLoop \<Rightarrow> runInLoop_shared ioLoop (ConnectDestroyed conn) conn (connectDestroyed u conn) w1) (\<lambda>w2.
           bindR (release_conn conn w2) (destroy_connections u rest))) w1) w"

fun drop_pointers :: "conn_id list \<Rightarrow> 'a conn_world_scheme \<Rightarrow> 'a conn_world_scheme result" where
  "drop_pointers [] w = Inr w"
| "drop_pointers (c # cs) w = bindR (release_conn c w) (drop_pointers cs)"

fun quit_loops :: "loop_id list \<Rightarrow> 'a loop_world_scheme \<Rightarrow> 'a loop_world_scheme result" where
  "quit_loops [] w = Inr w"
| "quit_loops (l # ls) w = bindR (el_quit l w) (quit_loops ls)"

definition destroy_TcpServer :: "'a server_world_scheme conn_env \<Rightarrow> bool \<Rightarrow> 'a server_world_scheme \<Rightarrow>
    'a server_world_scheme result" where
  "destroy_TcpServer u pool_shared w =
     with_server (\<lambda>sv. bindR (assertInLoopThread (sv_loop sv) w) (\<lambda>_.
       bindR (destroy_connections u (map fst (sv_connections sv)) w) (\<lambda>w1.
       bindR (with_loop (sv_loop sv) (\<lambda>e. if \<not> el_stopped e then el_quit (sv_loop sv) w1 else Inr w1) w1) (\<lambda>w2.
       bindR (with_server (\<lambda>sv2. drop_pointers (map snd (sv_connections sv2)) w2) w2) (\<lambda>w3.
       let w4 = w3\<lparr>server := None, acceptor := None\<rparr> in
       if pool_shared then Inr w4 else quit_loops (tp_loops (io_pool w4)) w4))))) w"

section \<open>The server as a state machine\<close>

datatype server_event =
    ConnEvent conn_event
  | AcceptDone nat error_code
  | Start "nat \<Rightarrow> tid \<times> loop_id"
  | SetThreadNum int
  | SetConnectionCallback "callback option"
  | SetMessageCallback "callback option"
  | SetWriteCompleteCallback "callback option"
  | SetThreadInitCallback "nat option"
  | DestroyServer bool

fun server_exec :: "'a server_world_scheme conn_env \<Rightarrow> server_event \<Rightarrow> 'a server_world_scheme \<Rightarrow>
    'a server_world_scheme result" where
  "server_exec u (ConnEvent ev) w = conn_exec (server_env u) ev w"
| "server_exec u (AcceptDone i error) w = complete_accept (sv_newConnection u) i error w"
| "server_exec u (Start spawn) w = sv_start u spawn w"
| "server_exec u (SetThreadNum n) w = sv_setThreadNum n w"
| "server_exec u (SetConnectionCallback cb) w = sv_setConnectionCallback cb w"
| "server_exec u (SetMessageCallback cb) w = sv_setMessageCallback cb w"
| "server_exec u (SetWriteCompleteCallback cb) w = sv_setWriteCompleteCallback cb w"
| "server_exec u (SetThreadInitCallback cb) w = setThreadInitCallback cb w"
| "server_exec u (DestroyServer shared) w = destroy_TcpServer u shared w"

inductive server_step :: "'a server_world_scheme conn_env \<Rightarrow> 'a server_world_scheme \<Rightarrow>
    'a server_world_scheme \<Rightarrow> bool" for u where
  server_step_exec: "server_exec u ev w = Inr w' \<Longrightarrow> server_step u w w'"

section \<open>Lifecycle of the server's connections\<close>

lemma server_fields_frame:
  "same_life w (w\<lparr>acceptor := a\<rparr>)" "same_life w (w\<lparr>io_pool := p\<rparr>)"
  "same_life w1 (w1\<lparr>server := sv\<rparr>)"
  by (simp_all add: same_life_def states_def fun_eq_iff)

lemma server_fields_life [simp]:
  "life_inv (w\<lparr>acceptor := a\<rparr>) = life_inv w" "life_inv (w\<lparr>io_pool := p\<rparr>) = life_inv w"
  "life_inv (w1\<lparr>server := sv\<rparr>) = life_inv w1"
  by (simp_all add: server_fields_frame same_life_inv)

lemma async_accept_frame: "async_accept l w = Inr w' \<Longrightarrow> same_life w w'"
  by (auto simp: async_accept_def with_loop_Inr Let_def same_life_def states_def fun_eq_iff)

lemma listenInLoop_frame: "listenInLoop w = Inr w' \<Longrightarrow> same_life w w'"
  by (auto simp: listenInLoop_def with_acceptor_def Let_def bindR_eq_Inr same_life_def states_def fun_eq_iff
      split: option.splits if_splits dest!: async_accept_frame)

lemma ac_listen_frame: "ac_listen w = Inr w' \<Longrightarrow> same_life w w'"
  by (auto simp: ac_listen_def with_acceptor_def same_life_fields split: option.splits
      elim!: runInLoop_frame dest: listenInLoop_frame)

lemma sv_configure_frame: "sv_configure sv c w = Inr w' \<Longrightarrow> same_life w w'"
  unfolding sv_configure_def bindR_eq_Inr by (blast intro: same_life_trans setters_frame)

lemma new_EventLoop_frame: "same_life w (new_EventLoop l w)"
  by (auto simp: new_EventLoop_def Let_def same_life_def states_def fun_eq_iff)

text \<open>
  Starting the pool keeps what the thread callback keeps and what does not depend on threads and
  the loops.
\<close>

lemma startLoop_keeps:
  assumes "startLoop t l cb w = Inr w'" and "P w"
    and "\<And>w t. P w \<Longrightarrow> P (w\<lparr>this_thread := t\<rparr>)" and "\<And>w l. P w \<Longrightarrow> P (new_EventLoop l w)"
    and "\<And>w w' l. P w \<Longrightarrow> el_loop l w = Inr w' \<Longrightarrow> P w'" and "\<And>f w l. cb = Some f \<Longrightarrow> P w \<Longrightarrow> P (f l w)"
  shows "P w'"
proof -
  let ?w1 = "new_EventLoop l (w\<lparr>this_thread := t\<rparr>)"
  obtain w3 where w3: "el_loop l (case cb of None \<Rightarrow> ?w1 | Some f \<Rightarrow> f l ?w1) = Inr w3"
    and w': "w' = w3\<lparr>this_thread := this_thread w\<rparr>"
    using assms(1) by (auto simp: startLoop_def Let_def bindR_eq_Inr)
  have "P ?w1" using assms(2-4) by blast
  then have "P (case cb of None \<Rightarrow> ?w1 | Some f \<Rightarrow> f l ?w1)" using assms(6) by (cases cb) auto
  then show ?thesis using assms(3,5) w3 w' by blast
qed

lemma tp_start_keeps:
  assumes "tp_start spawn cb p w = Inr (p', w')" and "P w"
    and keeps: "\<And>w t. P w \<Longrightarrow> P (w\<lparr>this_thread := t\<rparr>)" "\<And>w l. P w \<Longrightarrow> P (new_EventLoop l w)"
      "\<And>w w' l. P w \<Longrightarrow> el_loop l w = Inr w' \<Longrightarrow> P w'" "\<And>f w l. cb = Some f \<Longrightarrow> P w \<Longrightarrow> P (f l w)"
  shows "P w' \<and> tp_started p'"
proof -
  have threads: "P w2 \<and> tp_started p2 = tp_started p1"
    if "start_threads spawn cb i n (p1, w1) = Inr (p2, w2)" "P w1" for i n p1 p2 w1 w2
    using that
  proof (induction n arbitrary: i p1 w1)
    case (Suc n)
    obtain t l where sp: "spawn i = (t, l)" by force
    with Suc.prems(1) obtain w3 where w3: "startLoop t l cb w1 = Inr w3"
      and rest: "start_threads spawn cb (Suc i) n (p1\<lparr>tp_threads := tp_threads p1 @ [snprintf 255 (tp_name p1 @ show_int (int i))],
        tp_loops := tp_loops p1 @ [l]\<rparr>, w3) = Inr (p2, w2)"
      by (auto simp: bindR_eq_Inr)
    have "P w3" using startLoop_keeps [where P = P, OF w3 Suc.prems(2)] keeps by blast
    from Suc.IH [OF rest this] show ?case by simp
  qed simp
  obtain p1 w1 where 1: "start_threads spawn cb 0 (nat (tp_numThreads p)) (p\<lparr>tp_started := True\<rparr>, w) = Inr (p1, w1)"
    and 2: "p' = p1 \<and> (w' = w1 \<or> (\<exists>f. cb = Some f \<and> w' = f (tp_baseLoop p) w1))"
    using assms(1) by (auto simp: tp_start_def result_simps split: if_splits option.splits)
  show ?thesis using threads [OF 1 assms(2)] 2 keeps(4) by auto
qed

lemma el_loop_frame: "el_loop l w = Inr w' \<Longrightarrow> same_life w w'"
  by (auto simp: el_loop_def upd_loop_def with_loop_Inr same_life_fields)

lemma el_quit_frame: "el_quit l w = Inr w' \<Longrightarrow> same_life w w'"
  by (auto simp: el_quit_def upd_loop_def with_loop_Inr same_life_fields)

lemma with_server_Inr: "with_server f w = Inr y \<longleftrightarrow> (\<exists>sv. server w = Some sv \<and> f sv = Inr y)"
  by (auto simp: with_server_def split: option.splits)

lemma sv_removeConnectionInLoop_steps:
  assumes "sv_removeConnectionInLoop u c w = Inr w'"
  obtains (released) sv n c' w1 where "server w = Some sv" and "map_of (sv_connections sv) n = Some c'"
      and "release_conn c' (w\<lparr>server := Some (sv\<lparr>sv_connections := map_erase n (sv_connections sv)\<rparr>)\<rparr>) = Inr w1"
      and "w' = w1 \<or> (\<exists>l. runInLoop_shared l (ConnectDestroyed c) c (connectDestroyed u c) w1 = Inr w')"
    | (reset) sv ns w1 where "server w = Some sv" and "w1 = w\<lparr>server := Some (sv\<lparr>sv_reset := ns\<rparr>)\<rparr>"
      and "w' = w1 \<or> (\<exists>l. runInLoop_shared l (ConnectDestroyed c) c (connectDestroyed u c) w1 = Inr w')"
proof -
  obtain sv :: tcp_server and k :: tcp_connection and w1 where sv: "server w = Some sv"
    and w1: "(case map_of (sv_connections sv) (c_name k) of
           Some c' \<Rightarrow> release_conn c'
             (w\<lparr>server := Some (sv\<lparr>sv_connections := map_erase (c_name k) (sv_connections sv)\<rparr>)\<rparr>)
         | None \<Rightarrow>
             if c_name k \<in> set (sv_reset sv)
             then Inr (w\<lparr>server := Some (sv\<lparr>sv_reset := removeAll (c_name k) (sv_reset sv)\<rparr>)\<rparr>)
             else Inl AssertionFailed) = Inr w1"
    and run: "(case c_loop k of None \<Rightarrow> Inr w1
       | Some ioLoop \<Rightarrow> runInLoop_shared ioLoop (ConnectDestroyed c) c (connectDestroyed u c) w1) = Inr w'"
    using assms unfolding sv_removeConnectionInLoop_def with_server_Inr bindR_eq_Inr with_conn_Inr by blast
  have r: "w' = w1 \<or> (\<exists>l. runInLoop_shared l (ConnectDestroyed c) c (connectDestroyed u c) w1 = Inr w')"
    using run by (auto split: option.splits)
  show ?thesis
  proof (cases "map_of (sv_connections sv) (c_name k)")
    case None
    with w1 have "w1 = w\<lparr>server := Some (sv\<lparr>sv_reset := removeAll (c_name k) (sv_reset sv)\<rparr>)\<rparr>"
      by (simp split: if_splits)
    from reset [OF sv this r] show ?thesis .
  next
    case (Some c')
    with w1 released [OF sv Some _ r] show ?thesis by simp
  qed
qed

lemma drop_pointers_life: "life_inv w1 \<Longrightarrow> drop_pointers cs w1 = Inr w1' \<Longrightarrow> life_inv w1'"
  by (induction cs arbitrary: w1) (auto simp: bindR_eq_Inr dest: release_life)

lemma destroy_TcpServer_steps:
  assumes "destroy_TcpServer u shared w = Inr w'"
  obtains l names cs w1 w2 w3 where "destroy_connections u names w = Inr w1"
    and "w2 = w1 \<or> el_quit l w1 = Inr w2" and "map_option (map snd \<circ> sv_connections) (server w2) = Some cs"
    and "drop_pointers cs w2 = Inr w3"
    and "w' = w3\<lparr>server := None, acceptor := None\<rparr>
      \<or> quit_loops (tp_loops (io_pool w3)) (w3\<lparr>server := None, acceptor := None\<rparr>) = Inr w'"
proof -
  obtain sv sv2 :: tcp_server and w1 w2 w3 where "destroy_connections u (map fst (sv_connections sv)) w = Inr w1"
    and "with_loop (sv_loop sv) (\<lambda>e. if \<not> el_stopped e then el_quit (sv_loop sv) w1 else Inr w1) w1 = Inr w2"
    and "server w2 = Some sv2" and "drop_pointers (map snd (sv_connections sv2)) w2 = Inr w3"
    and "(let w4 = w3\<lparr>server := None, acceptor := None\<rparr> in
       if shared then Inr w4 else quit_loops (tp_loops (io_pool w4)) w4) = Inr w'"
    using assms unfolding destroy_TcpServer_def with_server_Inr bindR_eq_Inr by blast
  with that [of "map fst (sv_connections sv)" w1 w2 "sv_loop sv" "map snd (sv_connections sv2)" w3] show ?thesis
    by (auto simp: with_loop_Inr Let_def split: if_splits)
qed

lemma quit_loops_frame: "quit_loops ls w = Inr w' \<Longrightarrow> same_life w w'"
  by (induction ls arbitrary: w)
    (auto simp: bindR_eq_Inr same_life_fields dest!: el_quit_frame intro: same_life_trans)

lemma frame_lives:
  "life_inv w \<Longrightarrow> ac_listen w = Inr w' \<Longrightarrow> life_inv w'"
  "life_inv w1 \<Longrightarrow> el_quit l w1 = Inr w1' \<Longrightarrow> life_inv w1'"
  "life_inv w1 \<Longrightarrow> quit_loops ls w1 = Inr w1' \<Longrightarrow> life_inv w1'"
  by (blast intro: frame_life ac_listen_frame el_quit_frame quit_loops_frame)+

text \<open>The intermediate worlds of a new connection.\<close>

lemma sv_newConnection_steps:
  assumes "sv_newConnection u sock l w = Inr w'"
  obtains sv io n c w1 w2 w3 w4 w5 where "server w = Some sv" and
    "new_TcpConnection (server_env u) (Some io) (conn_name sv) sock
        (w\<lparr>server := Some (sv\<lparr>sv_nextConnId := n\<rparr>)\<rparr>) = Inr (c, w1)"
    and "hold_conn c (w1\<lparr>server := Some (sv\<lparr>sv_nextConnId := n,
        sv_connections := map_put (conn_name sv) c (sv_connections sv)\<rparr>)\<rparr>) = Inr w2"
    and "(case map_of (sv_connections sv) (conn_name sv) of None \<Rightarrow> Inr w2
        | Some old \<Rightarrow> release_conn old w2) = Inr w3"
    and "sv_configure sv c w3 = Inr w4"
    and "runInLoop_shared io (ConnectEstablished c) c (connectEstablished (server_env u) c) w4 = Inr w5"
    and "release_conn c w5 = Inr w'"
proof -
  obtain sv io where sv: "server w = Some sv" "l = Some io"
    using assms by (auto simp: sv_newConnection_def with_server_def bindR_eq_Inr split: option.splits)
  obtain n c w1 w2 w3 w4 w5 where
    w1: "new_TcpConnection (server_env u) (Some io) (conn_name sv) sock
        (w\<lparr>server := Some (sv\<lparr>sv_nextConnId := n\<rparr>)\<rparr>) = Inr (c, w1)"
    and w2: "hold_conn c (w1\<lparr>server := Some (sv\<lparr>sv_nextConnId := n,
        sv_connections := map_put (conn_name sv) c (sv_connections sv)\<rparr>)\<rparr>) = Inr w2"
    and w3: "(case map_of (sv_connections sv) (conn_name sv) of None \<Rightarrow> Inr w2
        | Some old \<Rightarrow> release_conn old w2) = Inr w3"
    and w4: "sv_configure sv c w3 = Inr w4"
    and w5: "runInLoop_shared io (ConnectEstablished c) c (connectEstablished (server_env u) c) w4 = Inr w5"
    and w': "release_conn c w5 = Inr w'"
    using assms sv unfolding sv_newConnection_def with_server_def Let_def
    by (simp add: bindR_eq_Inr split_beta) (metis prod.collapse)
  with sv(1) that show ?thesis by blast
qed

text \<open>
  Callbacks of a user that keep the contract: then so does the environment that the server makes of
  them for its connections.
\<close>

locale server_user = conn_callbacks u for u :: "'a server_world_scheme conn_env"
begin

lemma removeConnectionInLoop_life:
  assumes "life_inv w" and "sv_removeConnectionInLoop u c w = Inr w'"
  shows "life_inv w'"
proof -
  have run: "life_inv w'" if "life_inv w1"
    and "w' = w1 \<or> (\<exists>l. runInLoop_shared l (ConnectDestroyed c) c (connectDestroyed u c) w1 = Inr w')" for w1
    using that by (auto elim: runInLoop_shared_life connectDestroyed_life)
  from assms(2) show ?thesis
  proof (cases rule: sv_removeConnectionInLoop_steps)
    case (released sv n c' w1)
    have "life_inv w1" by (rule release_life [OF _ released(3)]) (simp add: assms(1))
    then show ?thesis using released(4) by (rule run)
  next
    case (reset sv ns w1)
    have "life_inv w1" by (simp add: reset(2) assms(1))
    then show ?thesis using reset(3) by (rule run)
  qed
qed

lemma removeConnection_life: "life_inv w \<Longrightarrow> sv_removeConnection u c w = Inr w' \<Longrightarrow> life_inv w'"
  by (auto simp: sv_removeConnection_def with_server_def split: option.splits
      elim: runInLoop_shared_life removeConnectionInLoop_life)

lemma server_task_life: "life_inv w \<Longrightarrow> server_task u f w = Inr w' \<Longrightarrow> life_inv w'"
  by (cases f)
    (auto elim!: bind_release_life dest: task_cb
      intro: removeConnectionInLoop_life frame_life ac_listen_frame listenInLoop_frame)

end

sublocale server_user \<subseteq> sv: conn_callbacks "server_env u"
proof
  fix n c and w w' :: "'a server_world_scheme"
  assume inv: "life_inv w"
  show "on_connection (server_env u) n c w = Inr w' \<Longrightarrow> life_inv w'"
    using connection_cb [OF inv] by (simp add: server_env_def)
  show "on_message (server_env u) n c w = Inr w' \<Longrightarrow> life_inv w'"
    using message_cb [OF inv] by (simp add: server_env_def)
  show "on_write_complete (server_env u) n c w = Inr w' \<Longrightarrow> life_inv w'"
    using write_complete_cb [OF inv] by (simp add: server_env_def)
next
  fix c and w w' :: "'a server_world_scheme"
  assume inv: "life_inv w"
  show "on_close (server_env u) c w = Inr w' \<Longrightarrow> life_inv w'"
    using removeConnection_life [OF inv] by (simp add: server_env_def)
next
  fix f and w w' :: "'a server_world_scheme"
  assume inv: "life_inv w"
  show "on_task (server_env u) f w = Inr w' \<Longrightarrow> life_inv w'"
    using server_task_life [OF inv] by (simp add: server_env_def)
next
  show "life_inv (on_thread_init (server_env u) n l w)" if "life_inv w" for n l w
    using thread_init_cb [OF that] by (simp add: server_env_def)
qed

context server_user
begin

lemma newConnection_life:
  assumes "life_inv w" and "sv_newConnection u sock l w = Inr w'"
  shows "life_inv w'"
proof -
  from assms(2) obtain sv io n c w1 w2 w3 w4 w5 where
    w1: "new_TcpConnection (server_env u) (Some io) (conn_name sv) sock
        (w\<lparr>server := Some (sv\<lparr>sv_nextConnId := n\<rparr>)\<rparr>) = Inr (c, w1)"
    and w2: "hold_conn c (w1\<lparr>server := Some (sv\<lparr>sv_nextConnId := n,
        sv_connections := map_put (conn_name sv) c (sv_connections sv)\<rparr>)\<rparr>) = Inr w2"
    and w3: "(case map_of (sv_connections sv) (conn_name sv) of None \<Rightarrow> Inr w2
        | Some old \<Rightarrow> release_conn old w2) = Inr w3"
    and w4: "sv_configure sv c w3 = Inr w4"
    and w5: "runInLoop_shared io (ConnectEstablished c) c (connectEstablished (server_env u) c) w4 = Inr w5"
    and w': "release_conn c w5 = Inr w'"
    by (rule sv_newConnection_steps)
  have "life_inv w1"
    using new_TcpConnection_life [OF frame_life [OF server_fields_frame(3) assms(1)] w1] .
  then have "life_inv w2"
    using frame_life [OF hold_conn_frame [OF w2]] frame_life [OF server_fields_frame(3)] by blast
  then have "life_inv w3" using w3 release_life by (auto split: option.splits)
  then have "life_inv w4" using frame_life [OF sv_configure_frame [OF w4]] by blast
  then have "life_inv w5"
    using runInLoop_shared_life [OF w5] sv.connectEstablished_life by blast
  with w' show ?thesis by (blast intro: release_life)
qed

lemma complete_accept_life:
  assumes "life_inv w" and "complete_accept (sv_newConnection u) i error w = Inr w'"
  shows "life_inv w'"
proof -
  have "same_life w (in_acceptor_thread (drop_pending i w))"
    by (auto simp: in_acceptor_thread_def drop_pending_def same_life_def states_def fun_eq_iff split: option.splits)
  with assms(1) have inv: "life_inv (in_acceptor_thread (drop_pending i w))" by (blast intro: frame_life)
  have "life_inv w2" if "life_inv w1" and "acceptHandler (sv_newConnection u) s error w1 = Inr w2" for s w1 w2
    using that
    by (auto simp: acceptHandler_def with_acceptor_def bindR_eq_Inr split: option.splits if_splits
        dest: newConnection_life frame_lives(1))
  with assms inv show ?thesis
    by (auto simp: complete_accept_def split: if_splits io_op.splits)
qed

lemma destroy_connections_life:
  "life_inv w \<Longrightarrow> destroy_connections u names w = Inr w' \<Longrightarrow> life_inv w'"
proof (induction names arbitrary: w)
  case (Cons name names)
  obtain sv :: tcp_server where sv: "server w = Some sv"
    using Cons.prems(2) by (auto simp: with_server_Inr)
  show ?case
  proof (cases "map_of (sv_connections sv) name")
    case None
    with Cons.prems Cons.IH sv show ?thesis by (simp add: with_server_def)
  next
    case (Some c)
    define w1 where "w1 = w\<lparr>server := Some (sv\<lparr>sv_connections := map_erase name (sv_connections sv),
      sv_reset := name # sv_reset sv\<rparr>)\<rparr>"
    obtain l w2 w3 where w2: "(case l of None \<Rightarrow> Inr w1
        | Some l \<Rightarrow> runInLoop_shared l (ConnectDestroyed c) c (connectDestroyed u c) w1) = Inr w2"
      and w3: "release_conn c w2 = Inr w3" and rest: "destroy_connections u names w3 = Inr w'"
      using Cons.prems(2) sv Some unfolding w1_def by (auto simp: with_server_def with_conn_Inr bindR_eq_Inr Let_def)
    have "life_inv w1" using Cons.prems(1) by (simp add: w1_def)
    then have "life_inv w2"
      using w2 runInLoop_shared_life [of _ "ConnectDestroyed c" c "connectDestroyed u c" w1 w2] connectDestroyed_life
      by (auto split: option.splits)
    then have "life_inv w3" using w3 by (rule release_life)
    then show ?thesis using rest by (rule Cons.IH)
  qed
qed simp

lemma destroy_life_server:
  assumes "life_inv w" and "destroy_TcpServer u shared w = Inr w'"
  shows "life_inv w'"
proof -
  obtain l names cs w1 w2 w3 where w1: "destroy_connections u names w = Inr w1"
    and w2: "w2 = w1 \<or> el_quit l w1 = Inr w2" and w3: "drop_pointers cs w2 = Inr w3"
    and w': "w' = w3\<lparr>server := None, acceptor := None\<rparr>
      \<or> quit_loops (tp_loops (io_pool w3)) (w3\<lparr>server := None, acceptor := None\<rparr>) = Inr w'"
    using assms(2) by (rule destroy_TcpServer_steps)
  have "life_inv w1" using destroy_connections_life [OF assms(1) w1] .
  then have "life_inv w2" using w2 frame_lives(2) by auto
  then have "life_inv w3" using w3 by (rule drop_pointers_life)
  then have inv: "life_inv (w3\<lparr>server := None, acceptor := None\<rparr>)" by simp
  with w' show ?thesis using frame_lives(3) [OF inv] by auto
qed

lemma sv_start_life:
  assumes "life_inv w" and "sv_start u spawn w = Inr w'"
  shows "life_inv w'"
proof -
  obtain sv :: tcp_server and p w1 where w1: "tp_start spawn (map_option (on_thread_init u) (sv_threadInitCallback sv)) (io_pool w) w = Inr (p, w1)"
    and run: "runInLoop (sv_loop sv) AcceptorListen ac_listen (w1\<lparr>io_pool := p\<rparr>) = Inr w'"
    using assms(2) by (auto simp: sv_start_def with_server_def with_acceptor_def bindR_eq_Inr assertR_eq_Inr
      Let_def split: option.splits)
  have "life_inv w1 \<and> tp_started p"
    by (rule tp_start_keeps [where P = life_inv, OF w1 assms(1)])
      (auto intro: frame_life new_EventLoop_frame el_loop_frame same_life_fields thread_init_cb)
  then have "life_inv (w1\<lparr>io_pool := p\<rparr>)" by simp
  with run show ?thesis using runInLoop_life frame_lives(1) by metis
qed

lemma server_exec_life:
  assumes "life_inv w" and "server_exec u ev w = Inr w'"
  shows "life_inv w'"
proof (cases ev)
  case (ConnEvent e)
  with assms sv.conn_exec_life show ?thesis by simp
next
  case (AcceptDone i error)
  with assms complete_accept_life show ?thesis by simp
next
  case (Start spawn)
  with assms sv_start_life show ?thesis by simp
next
  case (DestroyServer shared)
  with assms destroy_life_server show ?thesis by simp
qed (use assms in \<open>auto simp: sv_setThreadNum_def sv_setConnectionCallback_def sv_setMessageCallback_def
      sv_setWriteCompleteCallback_def setThreadInitCallback_def upd_server_def with_server_def assertR_eq_Inr
      split: option.splits\<close>)

end

text \<open>Before any connection, whatever loops, acceptor and server there are.\<close>

sublocale server_user \<subseteq> server_life: inductive_invariant no_conns "server_step u" life_inv
proof
  show "life_inv w" if "no_conns w" for w
    using that by (simp add: no_conns_def life_inv_def life_ok_def states_def)
  show "life_inv w'" if "life_inv w" and "server_step u w w'" for w w'
    using that(2,1) by cases (rule server_exec_life)
qed

context server_user
begin

lemma server_reachable_life: "reach no_conns (server_step u) w \<Longrightarrow> life_inv w"
  by (rule server_life.reachable_inv)

end

interpretation plain_server: server_user "scripted script plain_env" for script
  by (rule server_user.intro, rule scripted_callbacks) (simp_all add: plain_env_def)

section \<open>A connection and its server in one loop\<close>

text \<open>
  The single-threaded server: connection \<open>c\<close> is served by the server's own loop, registered under its
  name, connected, and its connection callback does nothing that matters here.
\<close>

definition served :: "'a server_world_scheme conn_env \<Rightarrow> conn_id \<Rightarrow> tcp_connection \<Rightarrow> tcp_server \<Rightarrow>
    'a server_world_scheme \<Rightarrow> bool" where
  "served u c k sv w \<longleftrightarrow> server w = Some sv \<and> conns w c = Some k \<and> quiet u c k
     \<and> c_loop k = Some (sv_loop sv) \<and> c_closeCallback k \<and> map_of (sv_connections sv) (c_name k) = Some c
     \<and> 1 \<le> c_refs k \<and> sock_loop w (c_socket k) = Some (sv_loop sv)
     \<and> (\<exists>e. loops w (sv_loop sv) = Some e)"

definition in_server_thread :: "'a server_world_scheme \<Rightarrow> bool" where
  "in_server_thread w \<longleftrightarrow> (\<exists>sv e. server w = Some sv \<and> loops w (sv_loop sv) = Some e \<and> el_threadId e = this_thread w)"

text \<open>The world after the connection was closed: unregistered, and gone unless somebody else owns it.\<close>

definition closed :: "conn_id \<Rightarrow> tcp_connection \<Rightarrow> tcp_server \<Rightarrow> 'a server_world_scheme \<Rightarrow> 'a server_world_scheme" where
  "closed c k sv w =
     w\<lparr>conns := (conns w)(c := if c_refs k = 1 then None
         else Some (k\<lparr>c_state := kDisconnected, c_reading := False, c_refs := c_refs k - 1\<rparr>)),
       reported := (reported w)(c := reported w c @ [False]),
       server := Some (sv\<lparr>sv_connections := map_erase (c_name k) (sv_connections sv)\<rparr>)\<rparr>"

lemma handleClose_served:
  assumes "served u c k sv w" and "in_server_thread w" and "c_state k \<in> {kConnected, kDisconnecting}"
  shows "handleClose (server_env u) c w = Inr (closed c k sv w)"
proof -
  obtain e where e: "loops w (sv_loop sv) = Some e" "el_threadId e = this_thread w"
    using assms(1,2) by (auto simp: served_def in_server_thread_def)
  obtain n where n: "c_refs k = Suc n" using assms(1) by (cases "c_refs k") (auto simp: served_def)
  show ?thesis
    using assms(1,3) e n
    by (auto simp: served_def quiet_def handleClose_def server_env_def sv_removeConnection_def with_server_def
        sv_removeConnectionInLoop_def conn_defs closed_def Let_def)
qed

lemma served_env:
  assumes "served u c k sv w"
  shows "served u c k sv (in_sock_thread (c_socket k) (drop_pending i w))"
    and "in_server_thread (in_sock_thread (c_socket k) (drop_pending i w))"
  using assms by (auto simp: served_def in_sock_thread_def drop_pending_def in_server_thread_def)

lemma closed_fields [simp]:
  "conns (closed c k sv w) c = (if c_refs k = 1 then None
     else Some (k\<lparr>c_state := kDisconnected, c_reading := False, c_refs := c_refs k - 1\<rparr>))"
  "pending (closed c k sv w) = pending w"
  "reported (closed c k sv w) = (reported w)(c := reported w c @ [False])"
  "server (closed c k sv w) = Some (sv\<lparr>sv_connections := map_erase (c_name k) (sv_connections sv)\<rparr>)"
  by (simp_all add: closed_def)

lemma map_of_map_erase [simp]: "map_of (map_erase k xs) = (map_of xs)(k := None)"
  by (induction xs) (auto simp: map_erase_def fun_eq_iff)

text \<open>A completed read that ends in \<open>error\<close>, with no bytes.\<close>

lemma complete_read_end:
  assumes "i < length (pending w)" and "pending w ! i = ReadOp (c_socket k) c off len" and "error \<noteq> Success"
  shows "complete env i error [] w =
    (let w1 = in_sock_thread (c_socket k) (drop_pending i w) in
     if error = Eof then handleClose env c w1 else bindR (handleError env c w1) (read_again c 0))"
  using assms by (cases error) (simp_all add: complete_def readHandler_def Let_def)

section \<open>Properties\<close>

text \<open>
  A single-threaded server on loop 0 with one established connection 3, read outstanding; the map
  is its only owner.
\<close>

definition sample_server :: tcp_server where
  "sample_server = \<lparr>sv_loop = 0, sv_ipPort = ''127.0.0.1:80'', sv_name = ''S'',
     sv_connectionCallback = Some DefaultCallback, sv_messageCallback = Some (UserCallback 0),
     sv_writeCompleteCallback = None, sv_threadInitCallback = None, sv_nextConnId = 2,
     sv_connections = [(''S127.0.0.1:80#1'', 3)], sv_reset = []\<rparr>"

definition sample_conn :: tcp_connection where
  "sample_conn = open_conn\<lparr>c_name := ''S127.0.0.1:80#1''\<rparr>"

definition serving_world :: server_world where
  "serving_world =
     \<lparr>this_thread = 1, t_loopInThisThread = (\<lambda>_. None)(1 := Some 0),
      loops = [0 \<mapsto> \<lparr>el_threadId = 1, el_work = True, el_stopped = False, el_posted = [],
        el_timers = new_TimerQueue, el_context = None\<rparr>],
      conns = [3 \<mapsto> sample_conn], pending = [AcceptOp 8, ReadOp 7 3 8 8], sock_calls = [],
      sock_loop = [7 \<mapsto> 0, 8 \<mapsto> 0], next_conn = 4, next_sock = 9, reported = (\<lambda>_. [])(3 := [True]),
      acceptor = Some \<lparr>ac_loop = Some 0, ac_newConnectionCallback = True, ac_listenning = True, ac_pool = True,
        ac_newSockBindedLoop = Some 0\<rparr>,
      io_pool = (new_EventLoopThreadPool 0 ''S'')\<lparr>tp_started := True\<rparr>,
      server = Some sample_server\<rparr>"

lemma serving_world_served:
  "served plain_env 3 sample_conn sample_server serving_world"
  "1 < length (pending serving_world)" "pending serving_world ! 1 = ReadOp (c_socket sample_conn) 3 8 8"
  by (simp_all add: served_def serving_world_def sample_server_def sample_conn_def open_conn_def quiet_def)

text \<open>
  C17: the peer closes the connection of a single-threaded server. The read ends with \<open>eof\<close>; the
  connection callback is called with \<open>connected()\<close> false, the connection leaves the server's map,
  and if nobody else has a pointer to it, the object is destroyed, with its destructor's assertion
  satisfied.
\<close>

theorem peer_close_removes_connection:
  assumes "served u c k sv w" and "c_state k = kConnected \<or> c_state k = kDisconnecting"
    and "i < length (pending w)" and "pending w ! i = ReadOp (c_socket k) c off len"
  shows "\<exists>w' sv'. complete (server_env u) i Eof [] w = Inr w' \<and> server w' = Some sv'
    \<and> map_of (sv_connections sv') = (map_of (sv_connections sv))(c_name k := None)
    \<and> reported w' c = reported w c @ [False]
    \<and> (if c_refs k = 1 then conns w' c = None
       else map_option c_state (conns w' c) = Some kDisconnected)"
proof -
  let ?w = "in_sock_thread (c_socket k) (drop_pending i w)"
  have "complete (server_env u) i Eof [] w = Inr (closed c k sv ?w)"
    using complete_read_end [OF assms(3,4), of Eof "server_env u"] assms(2)
      handleClose_served [OF served_env [OF assms(1)]] by simp
  moreover have "reported ?w = reported w"
    by (auto simp: in_sock_thread_def drop_pending_def split: option.splits)
  ultimately show ?thesis by auto
qed

theorem peer_close_removes_connection_witness:
  "\<exists>w' sv'. complete (server_env plain_env) 1 Eof [] serving_world = Inr w' \<and> server w' = Some sv'
     \<and> map_of (sv_connections sv') = Map.empty \<and> reported w' 3 = [True, False] \<and> conns w' 3 = None"
proof -
  have "c_state sample_conn = kConnected \<or> c_state sample_conn = kDisconnecting"
    by (simp add: sample_conn_def open_conn_def)
  from peer_close_removes_connection [OF serving_world_served(1) this serving_world_served(2,3)]
  show ?thesis
    by (simp add: sample_server_def sample_conn_def open_conn_def serving_world_def)
qed

text \<open>
  C34: the same with a read that ends in any other error, a reset for example. \<open>readHandler\<close> goes on
  after \<open>handleError\<close> and reads \<open>reading_\<close> of the connection, which \<open>handleClose\<close> has just destroyed
  if the server's map was its only owner: use after free. Only if somebody else has a pointer to it,
  the handler ends well.
\<close>

theorem read_error_use_after_free:
  assumes "served u c k sv w" and "c_state k = kConnected \<or> c_state k = kDisconnecting"
    and "i < length (pending w)" and "pending w ! i = ReadOp (c_socket k) c off len"
  shows "if c_refs k = 1 then complete (server_env u) i OtherError [] w = Inl UseAfterFree
    else \<exists>w'. complete (server_env u) i OtherError [] w = Inr w'
      \<and> map_option c_state (conns w' c) = Some kDisconnected \<and> reads_of c w' = reads_of c (drop_pending i w)"
proof -
  let ?w = "in_sock_thread (c_socket k) (drop_pending i w)"
  have k: "conns ?w c = Some k" using assms(1) by (simp add: served_def)
  have "complete (server_env u) i OtherError [] w = read_again c 0 (closed c k sv ?w)"
    using complete_read_end [OF assms(3,4), of OtherError "server_env u"] assms(2) k
      handleClose_served [OF served_env [OF assms(1)]]
    by (simp add: handleError_def with_conn_def)
  then show ?thesis by (simp add: read_again_def with_conn_def reads_of_def)
qed

theorem read_error_use_after_free_witness:
  "complete (server_env plain_env) 1 OtherError [] serving_world = Inl UseAfterFree"
proof -
  have "c_state sample_conn = kConnected \<or> c_state sample_conn = kDisconnecting"
    by (simp add: sample_conn_def open_conn_def)
  from read_error_use_after_free [OF serving_world_served(1) this serving_world_served(2,3)]
  show ?thesis by (simp add: sample_conn_def open_conn_def)
qed

text \<open>
  C35: \<open>forceClose\<close> leaves the outstanding read outstanding. In a single-threaded server where the
  map is the only owner, the connection object is gone when \<open>forceClose\<close> returns, and however the
  read then completes, its handler runs on the destroyed object.
\<close>

theorem force_close_leaves_dangling_read:
  assumes "served u c k sv w" and "in_server_thread w" and "c_state k = kConnected \<or> c_state k = kDisconnecting"
    and "c_refs k = 1" and "i < length (pending w)" and "pending w ! i = ReadOp (c_socket k) c off len"
  shows "\<exists>w1. forceClose (server_env u) c w = Inr w1 \<and> conns w1 c = None \<and> pending w1 = pending w
    \<and> (\<forall>error. complete (server_env u) i error [] w1 = Inl UseAfterFree)"
proof -
  define k1 where "k1 = k\<lparr>c_state := kDisconnecting, c_refs := 2\<rparr>"
  define w0 where "w0 = w\<lparr>conns := (conns w)(c \<mapsto> k1)\<rparr>"
  have s0: "served u c k1 sv w0" "in_server_thread w0"
    using assms(1,2) by (auto simp: served_def w0_def k1_def quiet_def in_server_thread_def)
  define w1 where "w1 = (closed c k1 sv w0)\<lparr>conns := (conns (closed c k1 sv w0))(c := None)\<rparr>"
  have h: "handleClose (server_env u) c w0 = Inr (closed c k1 sv w0)"
    using handleClose_served [OF s0] by (simp add: k1_def)
  obtain e where e: "loops w (sv_loop sv) = Some e" "el_threadId e = this_thread w"
    using assms(1,2) by (auto simp: served_def in_server_thread_def)
  have fc: "forceCloseInLoop (server_env u) c w0 = Inr (closed c k1 sv w0)"
    using h s0(1) e by (simp add: forceCloseInLoop_def served_def with_conn_def loop_simps w0_def k1_def)
  have "forceClose (server_env u) c w = bindR (forceCloseInLoop (server_env u) c w0) (release_conn c)"
    using assms(1,3,4) e
    by (auto simp: forceClose_def served_def with_conn_def setState_def upd_conn_def runInLoop_shared_def
        hold_conn_def loop_simps w0_def k1_def numeral_2_eq_2)
  also have "\<dots> = Inr w1"
    by (simp add: fc release_conn_def destroy_TcpConnection_def with_conn_def w1_def)
      (simp add: k1_def)
  finally have 1: "forceClose (server_env u) c w = Inr w1" .
  have p: "pending w1 = pending w" "conns w1 c = None" by (simp_all add: w1_def w0_def)
  have "complete (server_env u) i error [] w1 = Inl UseAfterFree" for error
    using assms(5,6) p
    by (cases error) (simp_all add: complete_def readHandler_def handleClose_def handleError_def with_conn_def Let_def)
  with 1 p show ?thesis by blast
qed

theorem force_close_leaves_dangling_read_witness:
  "\<exists>w1. forceClose (server_env plain_env) 3 serving_world = Inr w1 \<and> conns w1 3 = None
     \<and> complete (server_env plain_env) 1 OtherError [] w1 = Inl UseAfterFree"
proof -
  have "in_server_thread serving_world" "c_state sample_conn = kConnected \<or> c_state sample_conn = kDisconnecting"
    "c_refs sample_conn = 1"
    by (simp_all add: in_server_thread_def serving_world_def sample_server_def sample_conn_def open_conn_def)
  from force_close_leaves_dangling_read [OF serving_world_served(1) this serving_world_served(2,3)]
  show ?thesis by blast
qed

text \<open>
  C36: destroying a single-threaded server with a connection that was shut down and has not yet
  been closed by the peer. \<open>connectDestroyed\<close> leaves the state \<open>kDisconnecting\<close> as it is, so the
  destructor of the connection fails its assertion \<open>state_ == kDisconnected\<close>. A connection that is still
  connected is taken down properly.
\<close>

theorem destroy_server_after_shutdown_aborts:
  assumes "served u c k sv w" and "in_server_thread w" and "c_refs k = 1"
    and "sv_connections sv = (c_name k, c) # rest"
  shows "(c_state k = kDisconnecting \<longrightarrow> destroy_TcpServer u shared w = Inl AssertionFailed)
    \<and> (c_state k = kConnected \<and> rest = [] \<and> shared \<longrightarrow>
        (\<exists>w'. destroy_TcpServer u shared w = Inr w' \<and> conns w' c = None
           \<and> reported w' c = reported w c @ [False]))"
proof -
  obtain e where e: "loops w (sv_loop sv) = Some e" "el_threadId e = this_thread w"
    using assms(1,2) by (auto simp: served_def in_server_thread_def)
  note d = destroy_TcpServer_def with_server_def conn_defs el_quit_def map_erase_def Let_def
  have "destroy_TcpServer u shared w = Inl AssertionFailed" if "c_state k = kDisconnecting"
    using assms(1,3,4) e that by (simp add: served_def d)
  moreover have "\<exists>w'. destroy_TcpServer u shared w = Inr w' \<and> conns w' c = None
      \<and> reported w' c = reported w c @ [False]" if "c_state k = kConnected" "rest = []" "shared"
    using assms(1,3,4) e that by (auto simp: served_def quiet_def d)
  ultimately show ?thesis by blast
qed

definition shut_world :: server_world where
  "shut_world = serving_world\<lparr>conns := [3 \<mapsto> sample_conn\<lparr>c_state := kDisconnecting\<rparr>]\<rparr>"

theorem destroy_server_after_shutdown_aborts_witness:
  "destroy_TcpServer plain_env False shut_world = Inl AssertionFailed"
proof -
  let ?k = "sample_conn\<lparr>c_state := kDisconnecting\<rparr>"
  have "served plain_env 3 ?k sample_server shut_world" "in_server_thread shut_world" "c_refs ?k = 1"
    "sv_connections sample_server = (c_name ?k, 3) # []"
    by (simp_all add: served_def in_server_thread_def shut_world_def serving_world_def sample_server_def
        sample_conn_def open_conn_def quiet_def)
  from destroy_server_after_shutdown_aborts [OF this, of False] show ?thesis by simp
qed

subsection \<open>Starting and accepting\<close>

lemma getNextLoop_started: "getNextLoop w p = Inr (l, p') \<Longrightarrow> tp_started p'"
  by (auto simp: getNextLoop_def result_simps split: if_splits)

lemma listenInLoop_server:
  "listenInLoop w = Inr w' \<Longrightarrow> tp_started (io_pool w) \<Longrightarrow> server w' = server w \<and> tp_started (io_pool w')"
  by (auto simp: listenInLoop_def with_acceptor_def async_accept_def with_loop_Inr Let_def bindR_eq_Inr
      split: option.splits if_splits dest: getNextLoop_started)

lemma ac_listen_server:
  "ac_listen w = Inr w' \<Longrightarrow> tp_started (io_pool w) \<Longrightarrow> server w' = server w \<and> tp_started (io_pool w')"
  by (auto simp: ac_listen_def with_acceptor_def queueInLoop_def upd_loop_def with_loop_Inr
      split: option.splits elim!: runInLoop_cases dest: listenInLoop_server)

text \<open>
  \<open>start\<close> can be called once. The comment in \<open>TcpServer.h\<close> says that it is harmless to call it
  multiple times, but a second call fails the assertion in \<open>EventLoopThreadPool::start\<close>.
\<close>

lemma start_twice_aborts:
  assumes "sv_start u spawn w = Inr w1" and "\<forall>n l w. server (on_thread_init u n l w) = server w"
  shows "sv_start u spawn' w1 = Inl AssertionFailed"
proof -
  obtain sv p w0 where sv: "server w = Some sv"
    and p: "tp_start spawn (map_option (on_thread_init u) (sv_threadInitCallback sv)) (io_pool w) w = Inr (p, w0)"
    and run: "runInLoop (sv_loop sv) AcceptorListen ac_listen (w0\<lparr>io_pool := p\<rparr>) = Inr w1"
    using assms(1) by (auto simp: sv_start_def with_server_def with_acceptor_def bindR_eq_Inr assertR_eq_Inr
        Let_def split: option.splits)
  have "server w0 = Some sv \<and> tp_started p"
    by (rule tp_start_keeps [where P = "\<lambda>w. server w = Some sv", OF p sv])
      (use assms(2) in \<open>auto simp: new_EventLoop_def el_loop_def upd_loop_def with_loop_Inr Let_def\<close>)
  then have 0: "server w0 = Some sv" "tp_started p" by simp_all
  have "server w1 = Some sv \<and> tp_started (io_pool w1)"
    using run
  proof (cases rule: runInLoop_cases)
    case 1
    from ac_listen_server [OF this] 0 show ?thesis by simp
  next
    case 2
    with 0 show ?thesis by (auto simp: queueInLoop_def upd_loop_def with_loop_Inr)
  qed
  then show ?thesis by (simp add: sv_start_def with_server_def tp_start_def)
qed

definition stopped_server_world :: server_world where
  "stopped_server_world = serving_world\<lparr>conns := Map.empty, pending := [],
     acceptor := Some \<lparr>ac_loop = Some 0, ac_newConnectionCallback = True, ac_listenning = False, ac_pool = True,
        ac_newSockBindedLoop = None\<rparr>,
     io_pool := new_EventLoopThreadPool 0 ''S''\<rparr>"

text \<open>The names that a server has given: its prefix and a number it has used.\<close>

definition names_ok :: "tcp_server \<Rightarrow> bool" where
  "names_ok sv \<longleftrightarrow> 1 \<le> sv_nextConnId sv \<and> (\<forall>n c. map_of (sv_connections sv) n = Some c \<longrightarrow>
     (\<exists>i. 1 \<le> i \<and> i < sv_nextConnId sv \<and> n = sv_name sv @ sv_ipPort sv @ ''#'' @ show_int i))"

lemma names_ok_fresh: "names_ok sv \<Longrightarrow> map_of (sv_connections sv) (conn_name sv) = None"
proof (rule ccontr)
  assume ok: "names_ok sv" and "map_of (sv_connections sv) (conn_name sv) \<noteq> None"
  then obtain i where "1 \<le> i" "i < sv_nextConnId sv"
      "conn_name sv = sv_name sv @ sv_ipPort sv @ ''#'' @ show_int i"
    unfolding names_ok_def by blast
  with ok show False using show_int_inj [of "sv_nextConnId sv" i] by (simp add: conn_name_def names_ok_def)
qed

lemma map_of_map_put [simp]: "map_of (map_put k v xs) = (map_of xs)(k \<mapsto> v)"
  by (induction k v xs rule: map_put.induct) (auto simp: fun_eq_iff)

lemma names_ok_put:
  assumes "names_ok sv"
  shows "names_ok (sv\<lparr>sv_nextConnId := sv_nextConnId sv + 1,
    sv_connections := map_put (conn_name sv) c (sv_connections sv)\<rparr>)"
proof -
  have "\<exists>i. 1 \<le> i \<and> i < sv_nextConnId sv + 1 \<and> n = sv_name sv @ sv_ipPort sv @ ''#'' @ show_int i"
    if "map_of (map_put (conn_name sv) c (sv_connections sv)) n = Some c'" for n c'
  proof (cases "n = conn_name sv")
    case True
    with assms show ?thesis
      by (intro exI [of _ "sv_nextConnId sv"]) (simp add: names_ok_def conn_name_def)
  next
    case False
    with that have "map_of (sv_connections sv) n = Some c'" by simp
    with assms obtain i where "1 \<le> i" "i < sv_nextConnId sv" "n = sv_name sv @ sv_ipPort sv @ ''#'' @ show_int i"
      unfolding names_ok_def by blast
    then show ?thesis by (intro exI [of _ i]) simp
  qed
  with assms show ?thesis by (simp add: names_ok_def del: map_of_map_put)
qed

text \<open>A connection as the server configures it; the map and the posted function object own it.\<close>

definition accepted_conn :: "tcp_server \<Rightarrow> loop_id \<Rightarrow> sock_id \<Rightarrow> endpoint \<Rightarrow> endpoint \<Rightarrow> tcp_connection" where
  "accepted_conn sv io s le pe =
     \<lparr>c_loop = Some io, c_name = conn_name sv, c_state = kConnecting, c_reading = True, c_socket = s,
      c_localEndpoint = le, c_peerEndpoint = pe, c_connectionCallback = sv_connectionCallback sv,
      c_messageCallback = sv_messageCallback sv, c_writeCompleteCallback = sv_writeCompleteCallback sv,
      c_highWaterMarkCallback = None, c_closeCallback = True, c_highWaterMark = 67108864,
      c_inputBuffer = fresh_buffer, c_outputBuffer = fresh_buffer, c_context = None,
      c_localIpPort = endPoint2ipPort le, c_peerIpPort = endPoint2ipPort pe, c_refs = 2\<rparr>"

lemma newConnection_elsewhere:
  assumes "server w = Some sv" and "loops w (sv_loop sv) = Some e" and "el_threadId e = this_thread w"
    and "loops w io = Some eio" and "el_threadId eio \<noteq> this_thread w"
    and "names_ok sv" and "sv_nextConnId sv < int_max"
    and "sock_local u s = Inr le" and "sock_remote u s = Inr pe" and "sock_option u s = Inr ()"
  shows "sv_newConnection u s (Some io) w = Inr (w\<lparr>
      loops := (loops w)(io \<mapsto> eio\<lparr>el_posted := el_posted eio @ [ConnectEstablished (next_conn w)]\<rparr>),
      conns := (conns w)(next_conn w \<mapsto> accepted_conn sv io s le pe), next_conn := next_conn w + 1,
      sock_calls := sock_calls w @ [SetKeepAlive s True],
      server := Some (sv\<lparr>sv_nextConnId := sv_nextConnId sv + 1,
        sv_connections := map_put (conn_name sv) (next_conn w) (sv_connections sv)\<rparr>)\<rparr>)"
  using assms names_ok_fresh [OF assms(6)]
  by (simp add: sv_newConnection_def with_server_def sv_configure_def incr_int_def conn_defs new_Buffer_default
      server_env_def accepted_conn_def numeral_2_eq_2 Let_def)

text \<open>
  C9: accepting, in a server with a pool of threads. When an accept completes, the new connection
  is registered under a name that no other connection has, configured with the server's callbacks,
  and handed to the loop its socket was built on: \<open>connectEstablished\<close> is posted there, nothing else
  changes in that loop, and the other connections are as before. The acceptor then listens again, for the next
  loop of the pool in turn.
\<close>

theorem accept_hands_over_and_listens:
  assumes "server w = Some sv" and "loops w (sv_loop sv) = Some e"
    and "acceptor w = Some a" and "ac_loop a = Some (sv_loop sv)" and "ac_pool a" and "ac_newConnectionCallback a"
    and "ac_newSockBindedLoop a = Some io" and "loops w io = Some eio" and "el_threadId eio \<noteq> el_threadId e"
    and "names_ok sv" and "sv_nextConnId sv < int_max"
    and "tp_ok (io_pool w)" and "tp_started (io_pool w)" and "tp_baseLoop (io_pool w) = sv_loop sv"
    and "tp_loops (io_pool w) \<noteq> []"
    and "\<forall>l \<in> set (tp_loops (io_pool w)). loops w l \<noteq> None"
    and "i < length (pending w)" and "pending w ! i = AcceptOp s"
    and "sock_local u s = Inr le" and "sock_remote u s = Inr pe" and "sock_option u s = Inr ()"
  shows "\<exists>w' sv' c k. complete_accept (sv_newConnection u) i Success w = Inr w' \<and> server w' = Some sv'
    \<and> c = next_conn w \<and> map_of (sv_connections sv) (c_name k) = None
    \<and> map_of (sv_connections sv') = (map_of (sv_connections sv))(c_name k \<mapsto> c) \<and> names_ok sv'
    \<and> conns w' = (conns w)(c \<mapsto> k) \<and> c_state k = kConnecting \<and> c_socket k = s \<and> c_loop k = Some io
    \<and> c_messageCallback k = sv_messageCallback sv
    \<and> loops w' = (loops w)(io \<mapsto> eio\<lparr>el_posted := el_posted eio @ [ConnectEstablished c]\<rparr>)
    \<and> pending w' = take i (pending w) @ drop (Suc i) (pending w) @ [AcceptOp (next_sock w)]
    \<and> sock_loop w' (next_sock w) = Some (tp_loops (io_pool w) ! nat (tp_next (io_pool w)))
    \<and> tp_next (io_pool w') = (tp_next (io_pool w) + 1) mod int (length (tp_loops (io_pool w)))"
proof -
  define w0 where "w0 = w\<lparr>this_thread := el_threadId e, pending := take i (pending w) @ drop (Suc i) (pending w)\<rparr>"
  have w0: "in_acceptor_thread (drop_pending i w) = w0"
    using assms(2-4) by (simp add: in_acceptor_thread_def drop_pending_def w0_def)
  let ?c = "next_conn w" and ?k = "accepted_conn sv io s le pe"
  let ?sv = "sv\<lparr>sv_nextConnId := sv_nextConnId sv + 1,
    sv_connections := map_put (conn_name sv) ?c (sv_connections sv)\<rparr>"
  let ?ls = "(loops w)(io \<mapsto> eio\<lparr>el_posted := el_posted eio @ [ConnectEstablished ?c]\<rparr>)"
  define w1 where "w1 = w0\<lparr>loops := ?ls, conns := (conns w)(?c \<mapsto> ?k), next_conn := ?c + 1,
    sock_calls := sock_calls w @ [SetKeepAlive s True], server := Some ?sv\<rparr>"
  have f0: "server w0 = Some sv" "loops w0 (sv_loop sv) = Some e" "el_threadId e = this_thread w0"
    "loops w0 io = Some eio" "el_threadId eio \<noteq> this_thread w0" "loops w0 = loops w" "conns w0 = conns w"
    "next_conn w0 = next_conn w" "sock_calls w0 = sock_calls w"
    using assms(1,2,8,9) by (simp_all add: w0_def)
  have nc: "sv_newConnection u s (Some io) w0 = Inr w1"
    using newConnection_elsewhere [OF f0(1-5) assms(10,11,19-21)] unfolding f0(6-9) w1_def .
  have io: "sv_loop sv \<noteq> io" using assms(2,8,9) by auto
  let ?p = "io_pool w"
  let ?l = "tp_loops ?p ! nat (tp_next ?p)"
  let ?p' = "?p\<lparr>tp_next := (tp_next ?p + 1) mod int (length (tp_loops ?p))\<rparr>"
  have base: "in_base_thread w1 ?p"
    using assms(2,14) io by (simp add: in_base_thread_iff loop_thread_of_def w1_def w0_def)
  have nxt: "getNextLoop w1 ?p = Inr (?l, ?p')"
    using getNextLoop_eq [OF assms(12,13) base] assms(15) by simp
  have "?l \<in> set (tp_loops ?p)" using assms(12,15) by (auto simp: tp_ok_def)
  then obtain el where el: "loops w1 ?l = Some el"
    using assms(16) by (cases "?l = io") (auto simp: w1_def w0_def)
  define w2 where "w2 = w1\<lparr>acceptor := Some (a\<lparr>ac_listenning := True, ac_newSockBindedLoop := Some ?l\<rparr>), io_pool := ?p',
      next_sock := next_sock w + 1, sock_loop := (sock_loop w)(next_sock w \<mapsto> ?l),
      pending := pending w0 @ [AcceptOp (next_sock w)]\<rparr>"
  have "ac_listen w1 = Inr w2"
  proof -
    have acc: "acceptor w1 = Some a" "io_pool w1 = ?p" "loops w1 (sv_loop sv) = Some e"
      "el_threadId e = this_thread w1" "next_sock w1 = next_sock w" "sock_loop w1 = sock_loop w"
      "pending w1 = pending w0"
      using assms(2,3) io by (simp_all add: w1_def w0_def)
    then show ?thesis using assms(4,5) nxt el
      by (simp add: ac_listen_def with_acceptor_def loop_simps listenInLoop_def async_accept_def with_loop_def Let_def w2_def)
  qed
  then have "complete_accept (sv_newConnection u) i Success w = Inr w2"
    using assms(3,6,7,17,18) nc w0
    by (simp add: complete_accept_def acceptHandler_def with_acceptor_def w0_def)
  moreover have "map_of (sv_connections sv) (c_name ?k) = None" "c_name ?k = conn_name sv"
    using names_ok_fresh [OF assms(10)] by (simp_all add: accepted_conn_def)
  moreover have "names_ok ?sv" by (rule names_ok_put [OF assms(10)])
  ultimately show ?thesis
    by (intro exI [of _ w2] exI [of _ ?sv] exI [of _ ?c] exI [of _ ?k])
      (simp add: w2_def w1_def w0_def accepted_conn_def)
qed

text \<open>A server with two threads: loops 10 and 11, the next connection going to loop 10.\<close>

definition pooled_world :: server_world where
  "pooled_world = serving_world\<lparr>
     loops := (loops serving_world)(
       10 \<mapsto> \<lparr>el_threadId = 20, el_work = True, el_stopped = False, el_posted = [], el_timers = new_TimerQueue,
         el_context = None\<rparr>,
       11 \<mapsto> \<lparr>el_threadId = 21, el_work = True, el_stopped = False, el_posted = [], el_timers = new_TimerQueue,
         el_context = None\<rparr>),
     acceptor := Some \<lparr>ac_loop = Some 0, ac_newConnectionCallback = True, ac_listenning = True, ac_pool = True,
        ac_newSockBindedLoop = Some 10\<rparr>,
     io_pool := \<lparr>tp_baseLoop = 0, tp_name = ''S'', tp_started = True, tp_numThreads = 2, tp_next = 1,
       tp_threads = [''S0'', ''S1''], tp_loops = [10, 11]\<rparr>,
     conns := Map.empty, server := Some (sample_server\<lparr>sv_nextConnId := 1, sv_connections := []\<rparr>)\<rparr>"

theorem accept_hands_over_and_listens_witness:
  "\<exists>w' c k. complete_accept (sv_newConnection plain_env) 0 Success pooled_world = Inr w' \<and> c = 4
     \<and> conns w' = [c \<mapsto> k] \<and> c_loop k = Some 10 \<and> map_option el_posted (loops w' 10) = Some [ConnectEstablished c]
     \<and> pending w' = [ReadOp 7 3 8 8, AcceptOp 9] \<and> sock_loop w' 9 = Some 11 \<and> tp_next (io_pool w') = 0"
proof -
  let ?sv = "sample_server\<lparr>sv_nextConnId := 1, sv_connections := []\<rparr>"
  let ?a = "\<lparr>ac_loop = Some 0, ac_newConnectionCallback = True, ac_listenning = True, ac_pool = True,
        ac_newSockBindedLoop = Some 10\<rparr>"
  let ?e = "\<lambda>t. \<lparr>el_threadId = t, el_work = True, el_stopped = False, el_posted = [], el_timers = new_TimerQueue,
         el_context = None\<rparr>"
  have "server pooled_world = Some ?sv" "loops pooled_world (sv_loop ?sv) = Some (?e 1)"
    "acceptor pooled_world = Some ?a" "ac_loop ?a = Some (sv_loop ?sv)" "ac_pool ?a" "ac_newConnectionCallback ?a"
    "ac_newSockBindedLoop ?a = Some 10" "loops pooled_world 10 = Some (?e 20)" "el_threadId (?e 20) \<noteq> el_threadId (?e 1)"
    "names_ok ?sv" "sv_nextConnId ?sv < int_max" "tp_ok (io_pool pooled_world)" "tp_started (io_pool pooled_world)"
    "tp_baseLoop (io_pool pooled_world) = sv_loop ?sv" "tp_loops (io_pool pooled_world) \<noteq> []"
    "\<forall>l \<in> set (tp_loops (io_pool pooled_world)). loops pooled_world l \<noteq> None"
    "0 < length (pending pooled_world)" "pending pooled_world ! 0 = AcceptOp 8"
    "sock_local plain_env 8 = Inr sample_endpoint" "sock_remote plain_env 8 = Inr sample_endpoint"
    "sock_option plain_env 8 = Inr ()"
    by (simp_all add: pooled_world_def serving_world_def sample_server_def names_ok_def int_max_def tp_ok_def
        plain_env_def)
  from accept_hands_over_and_listens [OF this] show ?thesis
    by (clarsimp simp: pooled_world_def serving_world_def) blast
qed

lemma accept_error_stops_accepting:
  assumes "i < length (pending w)" and "pending w ! i = AcceptOp s" and "error \<noteq> Success"
    and "\<forall>j < length (pending w). \<forall>s'. pending w ! j = AcceptOp s' \<longrightarrow> j = i"
    and "tp_started (io_pool w)" and "server w = Some sv"
  shows "\<exists>w'. complete_accept (sv_newConnection u) i error w = Inr w' \<and> acceptor w' = acceptor w
    \<and> (\<forall>s'. AcceptOp s' \<notin> set (pending w')) \<and> sv_start u spawn w' = Inl AssertionFailed"
proof -
  let ?w = "in_acceptor_thread (drop_pending i w)"
  have f: "acceptor ?w = acceptor w" "pending ?w = take i (pending w) @ drop (Suc i) (pending w)"
    "io_pool ?w = io_pool w" "server ?w = Some sv"
    using assms(6) by (auto simp: in_acceptor_thread_def drop_pending_def split: option.splits)
  have "AcceptOp s' \<notin> set (take i (pending w) @ drop (Suc i) (pending w))" for s'
    using remaining_nth [of "AcceptOp s'" i "pending w"] assms(4) by blast
  moreover have "complete_accept (sv_newConnection u) i error w = Inr ?w"
    using assms(1-3) by (simp add: complete_accept_def acceptHandler_def)
  moreover have "sv_start u spawn ?w = Inl AssertionFailed"
    using f assms(5) by (simp add: sv_start_def with_server_def tp_start_def)
  ultimately show ?thesis using f by auto
qed

lemma complete_accept_throws:
  assumes "i < length (pending w)" and "pending w ! i = AcceptOp s" and "server w = Some sv"
    and "acceptor w = Some a" and "ac_loop a = Some (sv_loop sv)" and "loops w (sv_loop sv) = Some e"
    and "ac_newConnectionCallback a" and "ac_newSockBindedLoop a = Some io" and "sv_nextConnId sv < int_max"
    and "sock_local u s = Inr le" and "sock_remote u s = Inl x"
  shows "complete_accept (sv_newConnection u) i Success w = Inl x"
  using assms by (simp add: complete_accept_def acceptHandler_def in_acceptor_thread_def drop_pending_def with_acceptor_def
      sv_newConnection_def with_server_def assertInLoopThread_def isInLoopThread_def with_loop_def incr_int_def
      new_TcpConnection_def server_env_def Let_def)




text \<open>A server that has just started, and its first connection accepted, established and closed by the peer.\<close>

definition fresh_server_world :: server_world where
  "fresh_server_world = stopped_server_world\<lparr>reported := (\<lambda>_. []),
     server := Some (sample_server\<lparr>sv_nextConnId := 1, sv_connections := []\<rparr>)\<rparr>"

fun server_run :: "'a server_world_scheme conn_env \<Rightarrow> server_event list \<Rightarrow> 'a server_world_scheme \<Rightarrow>
    'a server_world_scheme result" where
  "server_run u [] w = Inr w"
| "server_run u (a # as) w = bindR (server_exec u a w) (server_run u as)"

lemma server_run_reach:
  "reach init (server_step u) w \<Longrightarrow> server_run u as w = Inr w' \<Longrightarrow> reach init (server_step u) w'"
proof (induction as arbitrary: w)
  case (Cons a as)
  then obtain w1 where "server_exec u a w = Inr w1" and "server_run u as w1 = Inr w'"
    by (auto simp: bindR_eq_Inr)
  with Cons show ?case by (metis reach_step server_step_exec)
qed simp

definition first_client :: "server_event list" where
  "first_client = [Start (\<lambda>i. (0, 0)), AcceptDone 0 Success, ConnEvent (Hold 4), ConnEvent (Complete 0 Eof [])]"


end
