(* ===== verification/Connector.thy ===== *)
theory Connector
  imports ConnectionIO
begin

text \<open>
  The connector, \<open>src/src/net/Connector.h\<close> and \<open>Connector.cpp\<close>: it connects a socket to the
  server's address and, when that fails, tries again after a delay that doubles up to a maximum.

  The world is extended by the connector object (\<open>None\<close> once it is destroyed). Its handlers and
  function objects bind a plain \<open>this\<close>. The socket of an attempt is owned by the handler of the
  outstanding connect and, once connected, by the connection; \<open>held\<close> is a socket that the running
  code owns besides.
\<close>

section \<open>State\<close>

datatype connector_state = cn_kDisconnected | cn_kConnecting | cn_kConnected

definition kMaxRetryDelayMs :: int where
  "kMaxRetryDelayMs = 30 * 1000"

definition kInitRetryDelayMs :: int where
  "kInitRetryDelayMs = 500"

record connector =
  cn_loop :: "loop_id option"
  cn_serverAddr :: endpoint
  cn_connect :: bool
  cn_state :: connector_state
  cn_newConnectionCallback :: bool       \<comment> \<open>\<open>newConnectionCallback_\<close> is not empty\<close>
  cn_retryDelayMs :: int
  cn_socketWeakPtr :: "sock_id option"
  cn_reConnectTimer :: "timer_id option"

record connect_world = conn_world +
  connector :: "connector option"

definition with_connector :: "(connector \<Rightarrow> 'b result) \<Rightarrow> 'a connect_world_scheme \<Rightarrow> 'b result" where
  "with_connector f w = (case connector w of None \<Rightarrow> Inl UseAfterFree | Some x \<Rightarrow> f x)"

definition upd_connector :: "(connector \<Rightarrow> connector) \<Rightarrow> 'a connect_world_scheme \<Rightarrow> 'a connect_world_scheme result" where
  "upd_connector f w = with_connector (\<lambda>x. Inr (w\<lparr>connector := Some (f x)\<rparr>)) w"

text \<open>\<open>socketWeakPtr_.lock()\<close> succeeds while somebody owns the socket.\<close>

definition sock_alive :: "sock_id option \<Rightarrow> sock_id \<Rightarrow> 'a conn_world_scheme \<Rightarrow> bool" where
  "sock_alive held s w \<longleftrightarrow> held = Some s \<or> ConnectOp s \<in> set (pending w)
     \<or> list_ex (\<lambda>c. case conns w c of None \<Rightarrow> False | Some k \<Rightarrow> c_socket k = s) [0..<next_conn w]"

section \<open>Operations\<close>

definition new_Connector :: "loop_id option \<Rightarrow> endpoint \<Rightarrow> connector" where
  "new_Connector loop peer =
     \<lparr>cn_loop = loop, cn_serverAddr = peer, cn_connect = False, cn_state = cn_kDisconnected,
      cn_newConnectionCallback = False, cn_retryDelayMs = kInitRetryDelayMs, cn_socketWeakPtr = None,
      cn_reConnectTimer = None\<rparr>"

definition cn_setNewConnectionCallback :: "bool \<Rightarrow> 'a connect_world_scheme \<Rightarrow> 'a connect_world_scheme result" where
  "cn_setNewConnectionCallback cb = upd_connector (\<lambda>x. x\<lparr>cn_newConnectionCallback := cb\<rparr>)"

definition cn_setState :: "connector_state \<Rightarrow> 'a connect_world_scheme \<Rightarrow> 'a connect_world_scheme result" where
  "cn_setState s = upd_connector (\<lambda>x. x\<lparr>cn_state := s\<rparr>)"

definition cn_startInLoop :: "'a connect_world_scheme \<Rightarrow> 'a connect_world_scheme result" where
  "cn_startInLoop w =
     with_connector (\<lambda>x. assertR (cn_state x = cn_kDisconnected) (
       if \<not> cn_connect x then Inr w
       else case cn_loop x of None \<Rightarrow> Inr w | Some loop \<Rightarrow>
         bindR (assertInLoopThread loop w) (\<lambda>_.
           let s = next_sock w in
           Inr (w\<lparr>next_sock := s + 1, sock_loop := (sock_loop w)(s \<mapsto> loop),
                  connector := Some (x\<lparr>cn_socketWeakPtr := Some s, cn_state := cn_kConnecting\<rparr>),
                  pending := pending w @ [ConnectOp s]\<rparr>)))) w"

definition cn_start :: "'a connect_world_scheme \<Rightarrow> 'a connect_world_scheme result" where
  "cn_start w =
     bindR (upd_connector (\<lambda>x. x\<lparr>cn_connect := True\<rparr>) w) (\<lambda>w1.
     with_connector (\<lambda>x. case cn_loop x of None \<Rightarrow> Inr w1
       | Some loop \<Rightarrow> runInLoop loop ConnectorStartInLoop cn_startInLoop w1) w1)"

definition cn_retry :: "sock_id option \<Rightarrow> 'a connect_world_scheme \<Rightarrow> 'a connect_world_scheme result" where
  "cn_retry held w =
     with_connector (\<lambda>x. case cn_socketWeakPtr x of
         None \<Rightarrow> Inr w
       | Some s \<Rightarrow>
           if \<not> sock_alive held s w then Inr w
           else
             let w1 = w\<lparr>sock_calls := sock_calls w @ [CloseSocket s]\<rparr> in
             assertR (cn_state x = cn_kDisconnected) (
             if cn_connect x then
               (case cn_loop x of None \<Rightarrow> Inr w1 | Some loop \<Rightarrow>
                  bindR (runAfter loop (cn_retryDelayMs x) ConnectorStartInLoop w1) (\<lambda>(t, w2).
                    Inr (w2\<lparr>connector := Some (x\<lparr>cn_reConnectTimer := Some t,
                      cn_retryDelayMs := min (cn_retryDelayMs x * 2) kMaxRetryDelayMs\<rparr>)\<rparr>)))
             else Inr w1)) w"

definition handleConnect :: "(sock_id \<Rightarrow> 'a connect_world_scheme \<Rightarrow> 'a connect_world_scheme result) \<Rightarrow>
    sock_id \<Rightarrow> error_code \<Rightarrow> 'a connect_world_scheme \<Rightarrow> 'a connect_world_scheme result" where
  "handleConnect on_new socketPtr error w =
     (if error = Success then
        bindR (cn_setState cn_kConnected w) (\<lambda>w1.
        with_connector (\<lambda>x. if cn_newConnectionCallback x then on_new socketPtr w1 else Inr w1) w1)
      else
        bindR (cn_setState cn_kDisconnected w) (cn_retry (Some socketPtr)))"

definition cn_restart :: "'a connect_world_scheme \<Rightarrow> 'a connect_world_scheme result" where
  "cn_restart w =
     with_connector (\<lambda>x. case cn_loop x of None \<Rightarrow> Inr w | Some loop \<Rightarrow>
       bindR (assertInLoopThread loop w) (\<lambda>_.
         cn_startInLoop (w\<lparr>connector := Some (x\<lparr>cn_state := cn_kDisconnected,
           cn_retryDelayMs := kInitRetryDelayMs, cn_connect := True\<rparr>)\<rparr>))) w"

definition cn_stopInLoop :: "'a connect_world_scheme \<Rightarrow> 'a connect_world_scheme result" where
  "cn_stopInLoop w =
     with_connector (\<lambda>x. case cn_loop x of None \<Rightarrow> Inr w | Some loop \<Rightarrow>
       bindR (assertInLoopThread loop w) (\<lambda>_.
         if cn_state x = cn_kConnecting then bindR (cn_setState cn_kDisconnected w) (cn_retry None)
         else Inr w)) w"

text \<open>Cancelling an empty \<open>reConnectTimer_\<close> has no effect.\<close>

definition cn_stop :: "'a connect_world_scheme \<Rightarrow> 'a connect_world_scheme result" where
  "cn_stop w =
     bindR (upd_connector (\<lambda>x. x\<lparr>cn_connect := False\<rparr>) w) (\<lambda>w1.
     with_connector (\<lambda>x. case cn_loop x of None \<Rightarrow> Inr w1 | Some loop \<Rightarrow>
       bindR (queueInLoop loop ConnectorStopInLoop w1) (\<lambda>w2.
       case cn_reConnectTimer x of None \<Rightarrow> Inr w2 | Some t \<Rightarrow> el_cancel loop t w2)) w1)"

section \<open>The environment's steps\<close>

text \<open>The handler of the \<open>i\<close>-th operation, a connect, is called in the thread of the socket's loop.\<close>

definition complete_connect :: "(sock_id \<Rightarrow> 'a connect_world_scheme \<Rightarrow> 'a connect_world_scheme result) \<Rightarrow>
    nat \<Rightarrow> error_code \<Rightarrow> 'a connect_world_scheme \<Rightarrow> 'a connect_world_scheme result" where
  "complete_connect on_new i error w =
     (if i < length (pending w) then
        (case pending w ! i of
           ConnectOp s \<Rightarrow> handleConnect on_new s error (in_sock_thread s (drop_pending i w))
         | _ \<Rightarrow> Inr w)
      else Inr w)"

text \<open>The \<open>i\<close>-th wait of the timers of loop \<open>l\<close> completes; \<open>run\<close> calls the timer's function object.\<close>

definition loop_timers :: "loop_id \<Rightarrow> 'a loop_world_scheme \<Rightarrow> timer_queue" where
  "loop_timers l w = (case loops w l of None \<Rightarrow> new_TimerQueue | Some e \<Rightarrow> el_timers e)"

definition upd_timers :: "loop_id \<Rightarrow> (timer_queue \<Rightarrow> timer_queue) \<Rightarrow> 'a loop_world_scheme \<Rightarrow> 'a loop_world_scheme" where
  "upd_timers l f w = (case loops w l of None \<Rightarrow> w
     | Some e \<Rightarrow> w\<lparr>loops := (loops w)(l \<mapsto> e\<lparr>el_timers := f (el_timers e)\<rparr>)\<rparr>)"

definition complete_timer :: "(closure \<Rightarrow> 'a loop_world_scheme \<Rightarrow> 'a loop_world_scheme result) \<Rightarrow> loop_id \<Rightarrow> nat \<Rightarrow>
    error_code \<Rightarrow> 'a loop_world_scheme \<Rightarrow> 'a loop_world_scheme result" where
  "complete_timer run l i error w =
     with_loop l (\<lambda>e.
       if i < length (tq_waits (el_timers e)) then
         (case tq_waits (el_timers e) ! i of (t, delay, interval) \<Rightarrow>
            handleTimer (loop_timers l) (upd_timers l) run t interval error
              (upd_timers l (drop_wait i) (w\<lparr>this_thread := el_threadId e\<rparr>)))
       else Inr w) w"

lemma with_connector_Inr [result_simps]:
  "with_connector f w = Inr y \<longleftrightarrow> (\<exists>x. connector w = Some x \<and> f x = Inr y)"
  by (auto simp: with_connector_def split: option.splits)

end
