(* ===== verification/TcpClient.thy ===== *)
theory TcpClient
  imports Connector
begin

text \<open>
  The TCP client, \<open>src/src/net/TcpClient.h\<close> and \<open>TcpClient.cpp\<close>: it owns a connector and at most
  one connection. Its close callback, \<open>removeConnection\<close>, and the connector's function objects
  complete the environment of its connection (\<open>client_env\<close>); \<open>u\<close> is the rest of it, with the user's
  callbacks. \<open>mutex_\<close> only guards single accesses to \<open>connection_\<close>, which are atomic steps here.
\<close>

section \<open>State\<close>

record tcp_client =
  cl_loop :: loop_id
  cl_name :: string
  cl_connectionCallback :: "callback option"
  cl_messageCallback :: "callback option"
  cl_writeCompleteCallback :: "callback option"
  cl_retry :: bool
  cl_connect :: bool
  cl_nextConnId :: int
  cl_connection :: "conn_id option"

text \<open>\<open>connector_\<close> is the connector of the world.\<close>

record client_world = connect_world +
  client :: "tcp_client option"

definition with_client :: "(tcp_client \<Rightarrow> 'b result) \<Rightarrow> 'a client_world_scheme \<Rightarrow> 'b result" where
  "with_client f w = (case client w of None \<Rightarrow> Inl UseAfterFree | Some cl \<Rightarrow> f cl)"

definition upd_client :: "(tcp_client \<Rightarrow> tcp_client) \<Rightarrow> 'a client_world_scheme \<Rightarrow> 'a client_world_scheme result" where
  "upd_client f w = with_client (\<lambda>cl. Inr (w\<lparr>client := Some (f cl)\<rparr>)) w"

section \<open>Operations\<close>

definition new_TcpClient :: "loop_id \<Rightarrow> endpoint \<Rightarrow> string \<Rightarrow> 'a client_world_scheme \<Rightarrow>
    'a client_world_scheme result" where
  "new_TcpClient loop serverAddr nameArg w =
     cn_setNewConnectionCallback True
       (w\<lparr>connector := Some (new_Connector (Some loop) serverAddr),
          client := Some \<lparr>cl_loop = loop, cl_name = nameArg, cl_connectionCallback = Some DefaultCallback,
            cl_messageCallback = Some DefaultCallback, cl_writeCompleteCallback = None, cl_retry = False,
            cl_connect = True, cl_nextConnId = 1, cl_connection = None\<rparr>\<rparr>)"

definition enableRetry :: "'a client_world_scheme \<Rightarrow> 'a client_world_scheme result" where
  "enableRetry = upd_client (\<lambda>cl. cl\<lparr>cl_retry := True\<rparr>)"

definition cl_setConnectionCallback :: "callback option \<Rightarrow> 'a client_world_scheme \<Rightarrow> 'a client_world_scheme result" where
  "cl_setConnectionCallback cb = upd_client (\<lambda>cl. cl\<lparr>cl_connectionCallback := cb\<rparr>)"

definition cl_setMessageCallback :: "callback option \<Rightarrow> 'a client_world_scheme \<Rightarrow> 'a client_world_scheme result" where
  "cl_setMessageCallback cb = upd_client (\<lambda>cl. cl\<lparr>cl_messageCallback := cb\<rparr>)"

definition cl_setWriteCompleteCallback :: "callback option \<Rightarrow> 'a client_world_scheme \<Rightarrow> 'a client_world_scheme result" where
  "cl_setWriteCompleteCallback cb = upd_client (\<lambda>cl. cl\<lparr>cl_writeCompleteCallback := cb\<rparr>)"

text \<open>\<open>connection()\<close>: a copy of the pointer, which the caller owns.\<close>

definition cl_getConnection :: "'a client_world_scheme \<Rightarrow> (conn_id option \<times> 'a client_world_scheme) result" where
  "cl_getConnection w =
     with_client (\<lambda>cl. case cl_connection cl of None \<Rightarrow> Inr (None, w)
       | Some c \<Rightarrow> bindR (hold_conn c w) (\<lambda>w1. Inr (Some c, w1))) w"

definition connect :: "'a client_world_scheme \<Rightarrow> 'a client_world_scheme result" where
  "connect w = bindR (upd_client (\<lambda>cl. cl\<lparr>cl_connect := True\<rparr>) w) cn_start"

definition disconnect :: "'a client_world_scheme conn_env \<Rightarrow> 'a client_world_scheme \<Rightarrow> 'a client_world_scheme result" where
  "disconnect u w =
     bindR (upd_client (\<lambda>cl. cl\<lparr>cl_connect := False\<rparr>) w) (\<lambda>w1.
     with_client (\<lambda>cl. case cl_connection cl of None \<Rightarrow> Inr w1 | Some c \<Rightarrow> tc_shutdown u c w1) w1)"

definition cl_stop :: "'a client_world_scheme \<Rightarrow> 'a client_world_scheme result" where
  "cl_stop w = bindR (upd_client (\<lambda>cl. cl\<lparr>cl_connect := False\<rparr>) w) cn_stop"

definition cl_removeConnection :: "conn_id \<Rightarrow> 'a client_world_scheme \<Rightarrow> 'a client_world_scheme result" where
  "cl_removeConnection c w =
     with_client (\<lambda>cl.
     bindR (assertInLoopThread (cl_loop cl) w) (\<lambda>_.
     with_conn c (\<lambda>k.
     assertR (c_loop k = Some (cl_loop cl)) (
     assertR (cl_connection cl = Some c) (
     bindR (release_conn c (w\<lparr>client := Some (cl\<lparr>cl_connection := None\<rparr>)\<rparr>)) (\<lambda>w1.
     bindR (hold_conn c w1) (\<lambda>w2.
     bindR (queueInLoop (cl_loop cl) (ConnectDestroyed c) w2) (\<lambda>w3.
     if cl_retry cl \<and> cl_connect cl then cn_restart w3 else Inr w3)))))) w)) w"

text \<open>The function objects of the connector, and the environment of the client's connection.\<close>

fun client_task :: "'a client_world_scheme conn_env \<Rightarrow> closure \<Rightarrow> 'a client_world_scheme \<Rightarrow>
    'a client_world_scheme result" where
  "client_task u ConnectorStartInLoop w = cn_startInLoop w"
| "client_task u ConnectorStopInLoop w = cn_stopInLoop w"
| "client_task u f w = on_task u f w"

definition client_env :: "'a client_world_scheme conn_env \<Rightarrow> 'a client_world_scheme conn_env" where
  "client_env u = u\<lparr>on_close := cl_removeConnection, on_task := client_task u\<rparr>"

text \<open>\<open>snprintf\<close> into a buffer of 32 characters, behind the client's name.\<close>

definition client_conn_name :: "string \<Rightarrow> endpoint \<Rightarrow> int \<Rightarrow> string" where
  "client_conn_name name peer connId =
     name @ snprintf 32 ('':'' @ endPoint2ipPort peer @ ''#'' @ show_int connId)"

definition cl_configure :: "tcp_client \<Rightarrow> conn_id \<Rightarrow> 'a conn_world_scheme \<Rightarrow> 'a conn_world_scheme result" where
  "cl_configure cl conn w =
     bindR (setConnectionCallback conn (cl_connectionCallback cl) w) (\<lambda>w1.
     bindR (setMessageCallback conn (cl_messageCallback cl) w1) (\<lambda>w2.
     bindR (setWriteCompleteCallback conn (cl_writeCompleteCallback cl) w2)
       (setCloseCallback conn True)))"

definition cl_newConnection :: "'a client_world_scheme conn_env \<Rightarrow> sock_id \<Rightarrow> 'a client_world_scheme \<Rightarrow>
    'a client_world_scheme result" where
  "cl_newConnection u s w =
     with_client (\<lambda>cl.
     bindR (assertInLoopThread (cl_loop cl) w) (\<lambda>_.
     bindR (sock_remote u s) (\<lambda>peer.
     bindR (incr_int (cl_nextConnId cl)) (\<lambda>n.
     bindR (new_TcpConnection u (Some (cl_loop cl)) (client_conn_name (cl_name cl) peer (cl_nextConnId cl)) s
              (w\<lparr>client := Some (cl\<lparr>cl_nextConnId := n\<rparr>)\<rparr>)) (\<lambda>(conn, w1).
     bindR (cl_configure cl conn w1) (\<lambda>w2.
     bindR (hold_conn conn (w2\<lparr>client := Some (cl\<lparr>cl_nextConnId := n, cl_connection := Some conn\<rparr>)\<rparr>)) (\<lambda>w3.
     bindR (case cl_connection cl of None \<Rightarrow> Inr w3 | Some old \<Rightarrow> release_conn old w3) (\<lambda>w4.
     bindR (connectEstablished (client_env u) conn w4)
       (release_conn conn))))))))) w"

text \<open>
  The destructor. The local \<open>conn\<close> is a second pointer to the connection; it and then the members
  \<open>connection_\<close> and \<open>connector_\<close> go away at the end.
\<close>

definition destroy_TcpClient :: "'a client_world_scheme conn_env \<Rightarrow> 'a client_world_scheme \<Rightarrow>
    'a client_world_scheme result" where
  "destroy_TcpClient u w =
     with_client (\<lambda>cl.
     bindR (case cl_connection cl of
         None \<Rightarrow> cn_stop w
       | Some c \<Rightarrow>
           with_conn c (\<lambda>k.
           let unique = (c_refs k = 1) in
           bindR (hold_conn c w) (\<lambda>w1.
           assertR (c_loop k = Some (cl_loop cl)) (
           bindR (runInLoop_shared (cl_loop cl) (SetCloseCallback c) c (setCloseCallback c True) w1) (\<lambda>w2.
           bindR (if unique then forceClose (client_env u) c w2 else Inr w2)
             (release_conn c))))) w) (\<lambda>w3.
     bindR (with_client (\<lambda>cl3. case cl_connection cl3 of None \<Rightarrow> Inr w3 | Some c \<Rightarrow> release_conn c w3) w3) (\<lambda>w4.
       Inr (w4\<lparr>client := None, connector := None\<rparr>)))) w"

section \<open>The client as a state machine\<close>

datatype client_event =
    ClientConn conn_event
  | ConnectDone nat error_code
  | TimerDone loop_id nat error_code
  | Connect
  | Disconnect
  | Stop
  | EnableRetry
  | SetClientConnectionCallback "callback option"
  | SetClientMessageCallback "callback option"
  | SetClientWriteCompleteCallback "callback option"
  | GetConnection
  | DestroyClient

fun client_exec :: "'a client_world_scheme conn_env \<Rightarrow> client_event \<Rightarrow> 'a client_world_scheme \<Rightarrow>
    'a client_world_scheme result" where
  "client_exec u (ClientConn ev) w = conn_exec (client_env u) ev w"
| "client_exec u (ConnectDone i error) w = complete_connect (cl_newConnection u) i error w"
| "client_exec u (TimerDone l i error) w = complete_timer (run_closure (client_env u)) l i error w"
| "client_exec u Connect w = connect w"
| "client_exec u Disconnect w = disconnect (client_env u) w"
| "client_exec u Stop w = cl_stop w"
| "client_exec u EnableRetry w = enableRetry w"
| "client_exec u (SetClientConnectionCallback cb) w = cl_setConnectionCallback cb w"
| "client_exec u (SetClientMessageCallback cb) w = cl_setMessageCallback cb w"
| "client_exec u (SetClientWriteCompleteCallback cb) w = cl_setWriteCompleteCallback cb w"
| "client_exec u GetConnection w = bindR (cl_getConnection w) (\<lambda>(c, w1). Inr w1)"
| "client_exec u DestroyClient w = destroy_TcpClient u w"

inductive client_step :: "'a client_world_scheme conn_env \<Rightarrow> 'a client_world_scheme \<Rightarrow>
    'a client_world_scheme \<Rightarrow> bool" for u where
  client_step_exec: "client_exec u ev w = Inr w' \<Longrightarrow> client_step u w w'"

section \<open>Lifecycle of the client's connections\<close>

lemma client_fields_frame:
  "same_life w (w\<lparr>connector := x\<rparr>)" "same_life w1 (w1\<lparr>client := cl\<rparr>)"
  by (simp_all add: same_life_def states_def fun_eq_iff)

lemma client_fields_life [simp]:
  "life_inv (w\<lparr>connector := x\<rparr>) = life_inv w" "life_inv (w1\<lparr>client := cl\<rparr>) = life_inv w1"
  by (simp_all add: client_fields_frame same_life_inv)

lemma upd_connector_frame: "upd_connector f w = Inr w' \<Longrightarrow> same_life w w'"
  by (auto simp: upd_connector_def with_connector_def client_fields_frame split: option.splits)

lemma upd_client_frame: "upd_client f w = Inr w' \<Longrightarrow> same_life w w'"
  by (auto simp: upd_client_def with_client_def client_fields_frame split: option.splits)

lemma cn_startInLoop_frame: "cn_startInLoop w = Inr w' \<Longrightarrow> same_life w w'"
  by (auto simp: cn_startInLoop_def with_connector_def result_simps Let_def same_life_def states_def fun_eq_iff
      split: option.splits if_splits)

lemma runAfter_frame: "runAfter l d cb w = Inr (t, w') \<Longrightarrow> same_life w w'"
  by (auto simp: runAfter_def with_loop_Inr split_beta same_life_fields)

lemma el_cancel_frame: "el_cancel l t w = Inr w' \<Longrightarrow> same_life w w'"
  by (auto simp: el_cancel_def upd_loop_def with_loop_Inr same_life_fields)

lemma cn_retry_frame: "cn_retry held w = Inr w' \<Longrightarrow> same_life w w'"
  unfolding cn_retry_def with_connector_def
  by (auto simp: result_simps Let_def same_life_fields split: option.splits if_splits dest!: runAfter_frame)
    (auto simp: same_life_def states_def fun_eq_iff)

lemma cn_restart_frame: "cn_restart w = Inr w' \<Longrightarrow> same_life w w'"
  by (auto simp: cn_restart_def with_connector_def bindR_eq_Inr same_life_fields split: option.splits
      dest!: cn_startInLoop_frame intro: same_life_trans client_fields_frame)

lemma cn_stopInLoop_frame: "cn_stopInLoop w = Inr w' \<Longrightarrow> same_life w w'"
  by (auto simp: cn_stopInLoop_def with_connector_def bindR_eq_Inr cn_setState_def same_life_fields
      split: option.splits if_splits dest!: upd_connector_frame cn_retry_frame intro: same_life_trans)

lemma cn_start_frame:
  assumes "cn_start w = Inr w'"
  shows "same_life w w'"
proof -
  obtain w1 and x :: connector where w1: "upd_connector (\<lambda>x. x\<lparr>cn_connect := True\<rparr>) w = Inr w1"
    and x: "(case cn_loop x of None \<Rightarrow> Inr w1
        | Some loop \<Rightarrow> runInLoop loop ConnectorStartInLoop cn_startInLoop w1) = Inr w'"
    using assms unfolding cn_start_def bindR_eq_Inr with_connector_Inr by blast
  have "same_life w1 w'"
    using x by (auto simp: same_life_fields split: option.splits elim: runInLoop_frame intro: cn_startInLoop_frame)
  then show ?thesis using upd_connector_frame [OF w1] same_life_trans by blast
qed

lemma cn_stop_frame:
  assumes "cn_stop w = Inr w'"
  shows "same_life w w'"
proof -
  obtain w1 and x :: connector where w1: "upd_connector (\<lambda>x. x\<lparr>cn_connect := False\<rparr>) w = Inr w1"
    and x: "(case cn_loop x of None \<Rightarrow> Inr w1 | Some loop \<Rightarrow>
       bindR (queueInLoop loop ConnectorStopInLoop w1) (\<lambda>w2.
       case cn_reConnectTimer x of None \<Rightarrow> Inr w2 | Some t \<Rightarrow> el_cancel loop t w2)) = Inr w'"
    using assms unfolding cn_stop_def bindR_eq_Inr with_connector_Inr by blast
  have "same_life w1 w'"
    using x by (auto simp: same_life_fields bindR_eq_Inr split: option.splits
        dest!: queueInLoop_frame el_cancel_frame intro: same_life_trans)
  then show ?thesis using upd_connector_frame [OF w1] same_life_trans by blast
qed

lemma cl_configure_frame: "cl_configure cl c w = Inr w' \<Longrightarrow> same_life w w'"
  unfolding cl_configure_def bindR_eq_Inr by (blast intro: same_life_trans setters_frame)

lemma with_client_Inr [result_simps]:
  "with_client f w = Inr y \<longleftrightarrow> (\<exists>cl. client w = Some cl \<and> f cl = Inr y)"
  by (auto simp: with_client_def split: option.splits)

lemma cl_removeConnection_life:
  assumes "life_inv w" and "cl_removeConnection c w = Inr w'"
  shows "life_inv w'"
proof -
  obtain cl k w1 w2 w3 where
    w1: "release_conn c (w\<lparr>client := Some (cl\<lparr>cl_connection := None\<rparr>)\<rparr>) = Inr w1"
    and w2: "hold_conn c w1 = Inr w2" and w3: "queueInLoop (cl_loop cl) (ConnectDestroyed c) w2 = Inr w3"
    and w': "(if cl_retry cl \<and> cl_connect cl then cn_restart w3 else Inr w3) = Inr w'"
    using assms(2) unfolding cl_removeConnection_def
    by (auto simp only: with_client_Inr bindR_eq_Inr with_conn_Inr assertR_eq_Inr)
  have "life_inv w1" using release_life [OF _ w1] assms(1) by simp
  then have "life_inv w3"
    using frame_life [OF hold_conn_frame [OF w2]] frame_life [OF queueInLoop_frame [OF w3]] by blast
  with w' show ?thesis using frame_life cn_restart_frame by (auto split: if_splits)
qed

text \<open>The handler of a timer only takes entries out of the queue; the function object may do more.\<close>

lemma handleTimer_keeps:
  assumes "handleTimer get upd run t n error w = Inr w'" and "P w"
    and upd: "\<And>f w. (\<And>q. tq_map (f q) \<subseteq>\<^sub>m tq_map q) \<Longrightarrow> P w \<Longrightarrow> P (upd f w)"
    and run: "\<And>cb w1 w2. tq_map (get (upd (hold t) w)) t = Some cb \<Longrightarrow> P w1 \<Longrightarrow> run cb w1 = Inr w2 \<Longrightarrow> P w2"
  shows "P w'"
proof (cases "alive (get w) t")
  case True
  let ?w1 = "upd (hold t) w"
  obtain cb w3 where cb: "tq_map (get ?w1) t = Some cb" and w3: "(if error = Success then
        bindR (run cb ?w1) (\<lambda>w2.
          if n = 0 then (if tq_map (get w2) t = None then Inl InvalidIterator else Inr (upd (tq_erase t) w2))
          else Inr (upd (start_wait t n n) w2))
      else Inr (upd (tq_erase t) ?w1)) = Inr w3" and w': "w' = upd (release t) w3"
    using assms(1) True by (auto simp: handleTimer_def Let_def bindR_eq_Inr split: option.splits)
  have step: "P w \<Longrightarrow> P (upd (hold t) w)" "P w \<Longrightarrow> P (upd (tq_erase t) w)" "P w \<Longrightarrow> P (upd (start_wait t n n) w)"
    "P w \<Longrightarrow> P (upd (release t) w)" for w
    by (rule upd; simp add: tq_defs map_le_def)+
  have "P ?w1" using assms(2) by (rule step)
  then have "P w3"
    using w3 by (auto simp: bindR_eq_Inr split: if_splits intro: step dest: run [OF cb])
  then show ?thesis unfolding w' by (rule step)
qed (use assms(1,2) in \<open>simp add: handleTimer_def\<close>)

lemma complete_timer_keeps:
  fixes w w' :: "'a loop_world_scheme"
  assumes "complete_timer run l i error w = Inr w'" and "P w"
    and thread: "\<And>w t. P w \<Longrightarrow> P (w\<lparr>this_thread := t\<rparr>)" and upd: "\<And>f w. (\<And>q. tq_map (f q) \<subseteq>\<^sub>m tq_map q) \<Longrightarrow> P w \<Longrightarrow> P (upd_timers l f w)"
    and run: "\<And>t cb w1 w2. tq_map (loop_timers l w) t = Some cb \<Longrightarrow> P w1 \<Longrightarrow> run cb w1 = Inr w2 \<Longrightarrow> P w2"
  shows "P w'"
proof -
  obtain e :: event_loop where l: "loops w l = Some e" and e: "(if i < length (tq_waits (el_timers e)) then
         (case tq_waits (el_timers e) ! i of (t, delay, interval) \<Rightarrow>
            handleTimer (loop_timers l) (upd_timers l) run t interval error
              (upd_timers l (drop_wait i) (w\<lparr>this_thread := el_threadId e\<rparr>)))
       else Inr w) = Inr w'"
    using assms(1) unfolding complete_timer_def with_loop_Inr by blast
  show ?thesis
  proof (cases "i < length (tq_waits (el_timers e))")
    case True
    let ?w = "upd_timers l (drop_wait i) (w\<lparr>this_thread := el_threadId e\<rparr>)"
    obtain t d n where h: "handleTimer (loop_timers l) (upd_timers l) run t n error ?w = Inr w'"
      using e True by (auto split: prod.splits)
    have timers: "tq_map (loop_timers l (upd_timers l (hold t) ?w)) t = tq_map (loop_timers l w) t"
      using l by (simp add: loop_timers_def upd_timers_def hold_def drop_wait_def)
    have "P ?w" by (rule upd, simp add: drop_wait_def, rule thread, rule assms(2))
    with h show ?thesis
    proof (rule handleTimer_keeps [where P = P])
      show "P w2" if "tq_map (loop_timers l (upd_timers l (hold t) ?w)) t = Some cb" and "P w1" and "run cb w1 = Inr w2"
        for cb w1 w2
        using that(1) unfolding timers by (rule run) (use that(2,3) in simp_all)
    qed (rule upd)
  qed (use e assms(2) in simp)
qed

lemma complete_timer_life:
  assumes "life_inv w" and "complete_timer run l i error w = Inr w'"
    and "\<And>cb w w'. life_inv w \<Longrightarrow> run cb w = Inr w' \<Longrightarrow> life_inv w'"
  shows "life_inv w'"
proof (rule complete_timer_keeps [where P = life_inv, OF assms(2,1)])
  show "life_inv (w\<lparr>this_thread := t\<rparr>)" if "life_inv w" for t and w :: "'a conn_world_scheme"
    using that same_life_inv [OF same_life_fields(1)] by blast
  show "life_inv (upd_timers l f w)" if "life_inv w" for f and w :: "'a conn_world_scheme"
    using that by (auto simp: upd_timers_def same_life_inv [OF same_life_fields(2)] split: option.splits)
qed (rule assms(3))

text \<open>The intermediate worlds of a new connection.\<close>

lemma cl_newConnection_steps:
  assumes "cl_newConnection u s w = Inr w'"
  obtains cl peer n c w1 w2 w3 w4 w5 where "client w = Some cl" and
    "new_TcpConnection u (Some (cl_loop cl)) (client_conn_name (cl_name cl) peer (cl_nextConnId cl)) s
           (w\<lparr>client := Some (cl\<lparr>cl_nextConnId := n\<rparr>)\<rparr>) = Inr (c, w1)"
    and "cl_configure cl c w1 = Inr w2"
    and "hold_conn c (w2\<lparr>client := Some (cl\<lparr>cl_nextConnId := n, cl_connection := Some c\<rparr>)\<rparr>) = Inr w3"
    and "(case cl_connection cl of None \<Rightarrow> Inr w3 | Some old \<Rightarrow> release_conn old w3) = Inr w4"
    and "connectEstablished (client_env u) c w4 = Inr w5" and "release_conn c w5 = Inr w'"
proof -
  obtain cl :: tcp_client and peer n c w1 w2 w3 w4 w5 where cl: "client w = Some cl" and
    w1: "new_TcpConnection u (Some (cl_loop cl)) (client_conn_name (cl_name cl) peer (cl_nextConnId cl)) s
           (w\<lparr>client := Some (cl\<lparr>cl_nextConnId := n\<rparr>)\<rparr>) = Inr (c, w1)"
    and w2: "cl_configure cl c w1 = Inr w2"
    and w3: "hold_conn c (w2\<lparr>client := Some (cl\<lparr>cl_nextConnId := n, cl_connection := Some c\<rparr>)\<rparr>) = Inr w3"
    and w4: "(case cl_connection cl of None \<Rightarrow> Inr w3 | Some old \<Rightarrow> release_conn old w3) = Inr w4"
    and w5: "connectEstablished (client_env u) c w4 = Inr w5" and w': "release_conn c w5 = Inr w'"
    using assms by (fastforce simp: cl_newConnection_def with_client_Inr bindR_eq_Inr)
  with that show ?thesis by blast
qed

text \<open>
  Callbacks of a user that keep the contract: then so does the environment that the client makes of
  them for its connection.
\<close>

locale client_user = conn_callbacks u for u :: "'a client_world_scheme conn_env"
begin

lemma client_task_life: "life_inv w \<Longrightarrow> client_task u f w = Inr w' \<Longrightarrow> life_inv w'"
  by (cases f) (auto intro: frame_life cn_startInLoop_frame cn_stopInLoop_frame dest: task_cb)

end

sublocale client_user \<subseteq> cl: conn_callbacks "client_env u"
proof
  fix n c and w w' :: "'a client_world_scheme"
  assume inv: "life_inv w"
  show "on_connection (client_env u) n c w = Inr w' \<Longrightarrow> life_inv w'"
    using connection_cb [OF inv] by (simp add: client_env_def)
  show "on_message (client_env u) n c w = Inr w' \<Longrightarrow> life_inv w'"
    using message_cb [OF inv] by (simp add: client_env_def)
  show "on_write_complete (client_env u) n c w = Inr w' \<Longrightarrow> life_inv w'"
    using write_complete_cb [OF inv] by (simp add: client_env_def)
next
  fix c and w w' :: "'a client_world_scheme"
  assume inv: "life_inv w"
  show "on_close (client_env u) c w = Inr w' \<Longrightarrow> life_inv w'"
    using cl_removeConnection_life [OF inv] by (simp add: client_env_def)
next
  fix f and w w' :: "'a client_world_scheme"
  assume inv: "life_inv w"
  show "on_task (client_env u) f w = Inr w' \<Longrightarrow> life_inv w'"
    using client_task_life [OF inv] by (simp add: client_env_def)
next
  show "life_inv (on_thread_init (client_env u) n l w)" if "life_inv w" for n l w
    using thread_init_cb [OF that] by (simp add: client_env_def)
qed

context client_user
begin

lemma cl_newConnection_life:
  assumes "life_inv w" and "cl_newConnection u s w = Inr w'"
  shows "life_inv w'"
proof -
  from assms(2) obtain cl peer n c w1 w2 w3 w4 w5 where
    w1: "new_TcpConnection u (Some (cl_loop cl)) (client_conn_name (cl_name cl) peer (cl_nextConnId cl)) s
           (w\<lparr>client := Some (cl\<lparr>cl_nextConnId := n\<rparr>)\<rparr>) = Inr (c, w1)"
    and w2: "cl_configure cl c w1 = Inr w2"
    and w3: "hold_conn c (w2\<lparr>client := Some (cl\<lparr>cl_nextConnId := n, cl_connection := Some c\<rparr>)\<rparr>) = Inr w3"
    and w4: "(case cl_connection cl of None \<Rightarrow> Inr w3 | Some old \<Rightarrow> release_conn old w3) = Inr w4"
    and w5: "connectEstablished (client_env u) c w4 = Inr w5" and w': "release_conn c w5 = Inr w'"
    by (rule cl_newConnection_steps)
  have "life_inv w1" using new_TcpConnection_life [OF _ w1] assms(1) by simp
  then have "life_inv (w2\<lparr>client := Some (cl\<lparr>cl_nextConnId := n, cl_connection := Some c\<rparr>)\<rparr>)"
    using frame_life [OF cl_configure_frame [OF w2]] by simp
  then have "life_inv w3" by (rule frame_life [OF hold_conn_frame [OF w3]])
  then have "life_inv w4" using w4 release_life by (auto split: option.splits)
  then have "life_inv w5" by (rule cl.connectEstablished_life [OF _ w5])
  then show ?thesis using w' by (rule release_life)
qed

lemma complete_connect_life:
  assumes "life_inv w" and "complete_connect (cl_newConnection u) i error w = Inr w'"
  shows "life_inv w'"
proof -
  have inv1: "life_inv (in_sock_thread s (drop_pending i w))" for s
    using assms(1) environment_frame same_life_inv by blast
  have h: "life_inv w2" if inv: "life_inv w1" and hc: "handleConnect (cl_newConnection u) s error w1 = Inr w2" for s w1 w2
  proof (cases "error = Success")
    case True
    then obtain w3 where w3: "cn_setState cn_kConnected w1 = Inr w3"
      and "cl_newConnection u s w3 = Inr w2 \<or> w2 = w3"
      using hc by (auto simp: handleConnect_def bindR_eq_Inr with_connector_Inr split: if_splits)
    moreover have "life_inv w3"
      using w3 inv unfolding cn_setState_def by (blast intro: frame_life upd_connector_frame)
    ultimately show ?thesis using cl_newConnection_life by blast
  next
    case False
    then obtain w3 where "cn_setState cn_kDisconnected w1 = Inr w3" "cn_retry (Some s) w3 = Inr w2"
      using hc by (auto simp: handleConnect_def bindR_eq_Inr)
    then show ?thesis
      using inv unfolding cn_setState_def by (blast intro: frame_life upd_connector_frame cn_retry_frame)
  qed
  show ?thesis
    using assms inv1 h by (auto simp: complete_connect_def split: if_splits io_op.splits)
qed

lemma destroy_TcpClient_life:
  assumes "life_inv w" and "destroy_TcpClient u w = Inr w'"
  shows "life_inv w'"
proof -
  obtain cl :: tcp_client and w3 w4 and cl3 :: tcp_client where
    w3: "(case cl_connection cl of
         None \<Rightarrow> cn_stop w
       | Some c \<Rightarrow>
           with_conn c (\<lambda>k.
           let unique = (c_refs k = 1) in
           bindR (hold_conn c w) (\<lambda>w1.
           assertR (c_loop k = Some (cl_loop cl)) (
           bindR (runInLoop_shared (cl_loop cl) (SetCloseCallback c) c (setCloseCallback c True) w1) (\<lambda>w2.
           bindR (if unique then forceClose (client_env u) c w2 else Inr w2)
             (release_conn c))))) w) = Inr w3"
    and w4: "(case cl_connection cl3 of None \<Rightarrow> Inr w3 | Some c \<Rightarrow> release_conn c w3) = Inr w4"
    and w': "w' = w4\<lparr>client := None, connector := None\<rparr>"
    using assms(2) unfolding destroy_TcpClient_def with_client_Inr bindR_eq_Inr by blast
  have "life_inv w3"
  proof (cases "cl_connection cl")
    case None
    with w3 assms(1) show ?thesis by (auto intro: frame_life cn_stop_frame)
  next
    case (Some c)
    with w3 obtain w1 w2 w25 b where h: "hold_conn c w = Inr w1"
      and r: "runInLoop_shared (cl_loop cl) (SetCloseCallback c) c (setCloseCallback c True) w1 = Inr w2"
      and f: "(if b then forceClose (client_env u) c w2 else Inr w2) = Inr w25"
      and rel: "release_conn c w25 = Inr w3"
      by (auto simp: with_conn_Inr Let_def bindR_eq_Inr assertR_eq_Inr)
    have "life_inv w1" using frame_life [OF hold_conn_frame [OF h] assms(1)] .
    then have "life_inv w2"
      by (rule runInLoop_shared_life [OF r]) (blast intro: frame_life setters_frame)
    then have "life_inv w25" using f cl.forceClose_life by (auto split: if_splits)
    then show ?thesis using rel by (rule release_life)
  qed
  then have "life_inv w4" using w4 release_life by (auto split: option.splits)
  then show ?thesis using w' by simp
qed

lemma client_exec_life:
  assumes "life_inv w" and "client_exec u ev w = Inr w'"
  shows "life_inv w'"
proof (cases ev)
  case (ClientConn e)
  with assms cl.conn_exec_life show ?thesis by simp
next
  case (ConnectDone i error)
  with assms complete_connect_life show ?thesis by simp
next
  case (TimerDone l i error)
  with assms complete_timer_life [OF assms(1) _ cl.run_closure_life] show ?thesis by simp
next
  case Disconnect
  then have "disconnect (client_env u) w = Inr w'" using assms(2) by simp
  then obtain w1 and cl1 :: tcp_client where w1: "upd_client (\<lambda>cl. cl\<lparr>cl_connect := False\<rparr>) w = Inr w1"
    and sh: "(case cl_connection cl1 of None \<Rightarrow> Inr w1 | Some c \<Rightarrow> tc_shutdown (client_env u) c w1) = Inr w'"
    unfolding disconnect_def bindR_eq_Inr with_client_Inr by blast
  have "life_inv w1" using frame_life [OF upd_client_frame [OF w1] assms(1)] .
  with sh show ?thesis using tc_shutdown_life by (auto split: option.splits)
next
  case GetConnection
  with assms(2) have "same_life w w'"
    by (auto simp: cl_getConnection_def with_client_Inr bindR_eq_Inr same_life_fields
        split: option.splits dest: hold_conn_frame)
  then show ?thesis using frame_life assms(1) by blast
next
  case DestroyClient
  with assms destroy_TcpClient_life show ?thesis by simp
qed (use assms in \<open>auto simp: connect_def cl_stop_def enableRetry_def cl_setConnectionCallback_def cl_setMessageCallback_def
      cl_setWriteCompleteCallback_def bindR_eq_Inr
      intro: frame_life upd_client_frame cn_start_frame cn_stop_frame\<close>)

end

sublocale client_user \<subseteq> client_life: inductive_invariant no_conns "client_step u" life_inv
proof
  show "life_inv w" if "no_conns w" for w
    using that by (simp add: no_conns_def life_inv_def life_ok_def states_def)
  show "life_inv w'" if "life_inv w" and "client_step u w w'" for w w'
    using that(2,1) by cases (rule client_exec_life)
qed

context client_user
begin

lemma client_reachable_life: "reach no_conns (client_step u) w \<Longrightarrow> life_inv w"
  by (rule client_life.reachable_inv)

end

interpretation plain_client: client_user "scripted script plain_env" for script
  by (rule client_user.intro, rule scripted_callbacks) (simp_all add: plain_env_def)

end
