(* ===== verification/ClientRetry.thy ===== *)
theory ClientRetry
  imports TcpClient
begin

text \<open>
  How the client and its connector behave over time: the retries with their delays, stopping,
  what happens when the connection goes down, the names of connections and the destruction of the
  client.
\<close>

section \<open>Failed attempts\<close>

fun client_run :: "'a client_world_scheme conn_env \<Rightarrow> client_event list \<Rightarrow> 'a client_world_scheme \<Rightarrow>
    'a client_world_scheme result" where
  "client_run u [] w = Inr w"
| "client_run u (a # as) w = bindR (client_exec u a w) (client_run u as)"

text \<open>
  An attempt is under way on loop \<open>l\<close>: the connect of its socket is the last operation that was
  started. \<open>d\<close> is the delay that a failure will cause.
\<close>

definition attempting :: "loop_id \<Rightarrow> int \<Rightarrow> 'a client_world_scheme \<Rightarrow> bool" where
  "attempting l d w \<longleftrightarrow> (\<exists>x s ops e. connector w = Some x \<and> cn_loop x = Some l \<and> cn_connect x
     \<and> cn_state x = cn_kConnecting \<and> cn_retryDelayMs x = d \<and> cn_socketWeakPtr x = Some s
     \<and> sock_loop w s = Some l \<and> loops w l = Some e \<and> pending w = ops @ [ConnectOp s])"

text \<open>
  One round: the connect completes with \<open>error\<close>, then the wait of the timer that was started last
  completes. The delay of that wait is part of the result.
\<close>

definition failed_round :: "'a client_world_scheme conn_env \<Rightarrow> loop_id \<Rightarrow> error_code \<Rightarrow> 'a client_world_scheme \<Rightarrow>
    (int \<times> 'a client_world_scheme) result" where
  "failed_round u l error w =
     bindR (client_exec u (ConnectDone (length (pending w) - 1) error) w) (\<lambda>w1.
     let waits = tq_waits (loop_timers l w1) in
     bindR (client_exec u (TimerDone l (length waits - 1) Success) w1) (\<lambda>w2.
       Inr (fst (snd (last waits)), w2)))"

fun failed_rounds :: "'a client_world_scheme conn_env \<Rightarrow> loop_id \<Rightarrow> error_code list \<Rightarrow> 'a client_world_scheme \<Rightarrow>
    (int list \<times> 'a client_world_scheme) result" where
  "failed_rounds u l [] w = Inr ([], w)"
| "failed_rounds u l (error # es) w =
     bindR (failed_round u l error w) (\<lambda>(d, w1).
     bindR (failed_rounds u l es w1) (\<lambda>(ds, w2). Inr (d # ds, w2)))"

lemma failed_connect:
  assumes "attempting l d w" and "error \<noteq> Success"
  shows "\<exists>w1 x e. client_exec u (ConnectDone (length (pending w) - 1) error) w = Inr w1
    \<and> connector w1 = Some x \<and> cn_loop x = Some l \<and> cn_connect x \<and> cn_state x = cn_kDisconnected
    \<and> cn_retryDelayMs x = min (d * 2) kMaxRetryDelayMs \<and> loops w1 l = Some e
    \<and> (\<exists>ws t. tq_waits (el_timers e) = ws @ [(t, d, 0)] \<and> tq_map (el_timers e) t = Some ConnectorStartInLoop)
    \<and> next_sock w1 = next_sock w"
  using assms
  by (auto simp: attempting_def complete_connect_def handleConnect_def cn_setState_def upd_connector_def
      with_connector_def cn_retry_def sock_alive_def in_sock_thread_def drop_pending_def runAfter_def
      with_loop_def addTimer_def start_wait_def Let_def)

lemma expired_timer:
  assumes "connector w = Some x" and "cn_loop x = Some l" and "cn_connect x" and "cn_state x = cn_kDisconnected"
    and "loops w l = Some e" and "tq_waits (el_timers e) = ws @ [(t, d, 0)]"
    and "tq_map (el_timers e) t = Some ConnectorStartInLoop"
  shows "\<exists>w1. client_exec u (TimerDone l (length ws) Success) w = Inr w1 \<and> attempting l (cn_retryDelayMs x) w1
    \<and> next_sock w1 = next_sock w + 1"
  using assms
  by (auto simp: attempting_def complete_timer_def with_loop_def handleTimer_def alive_def loop_timers_def
      upd_timers_def drop_wait_def tq_defs client_env_def cn_startInLoop_def with_connector_def loop_simps Let_def)

lemma failed_round_eq:
  assumes "attempting l d w" and "error \<noteq> Success"
  shows "\<exists>w2. failed_round u l error w = Inr (d, w2) \<and> attempting l (min (d * 2) kMaxRetryDelayMs) w2
    \<and> next_sock w2 = next_sock w + 1"
proof -
  obtain w1 x e ws t where 1: "client_exec u (ConnectDone (length (pending w) - 1) error) w = Inr w1"
    "connector w1 = Some x" "cn_loop x = Some l" "cn_connect x" "cn_state x = cn_kDisconnected"
    "cn_retryDelayMs x = min (d * 2) kMaxRetryDelayMs" "loops w1 l = Some e"
    "tq_waits (el_timers e) = ws @ [(t, d, 0)]" "tq_map (el_timers e) t = Some ConnectorStartInLoop"
    "next_sock w1 = next_sock w"
    using failed_connect [OF assms, of u] by blast
  obtain w2 where 2: "client_exec u (TimerDone l (length ws) Success) w1 = Inr w2"
    "attempting l (cn_retryDelayMs x) w2" "next_sock w2 = next_sock w1 + 1"
    using expired_timer [OF 1(2-5,7-9), of u] by blast
  show ?thesis
    using 1 2 by (simp add: failed_round_def loop_timers_def del: client_exec.simps)
qed

definition backoff :: "nat \<Rightarrow> int" where
  "backoff n = min (500 * 2 ^ n) 30000"

lemma backoff_Suc: "min (backoff n * 2) kMaxRetryDelayMs = backoff (Suc n)"
  by (auto simp: backoff_def kMaxRetryDelayMs_def min_def)

lemma failed_rounds_backoff:
  "attempting l (backoff n) w \<Longrightarrow> Success \<notin> set es \<Longrightarrow>
   \<exists>w'. failed_rounds u l es w = Inr (map backoff [n..<n + length es], w')
     \<and> attempting l (backoff (n + length es)) w' \<and> next_sock w' = next_sock w + length es"
proof (induction es arbitrary: n w)
  case (Cons a es)
  then obtain w1 where w1: "failed_round u l a w = Inr (backoff n, w1)" "attempting l (backoff (Suc n)) w1"
    "next_sock w1 = next_sock w + 1"
    using failed_round_eq [OF Cons.prems(1), of a u] backoff_Suc by auto
  from Cons.IH [OF this(2)] Cons.prems(2) w1 show ?case
    by (auto simp: upt_conv_Cons simp del: upt_Suc)
qed simp

text \<open>\<open>stop\<close> cancels the timer and queues \<open>stopInLoop\<close>.\<close>

definition cancelled :: "connector \<Rightarrow> timer_queue \<Rightarrow> timer_queue" where
  "cancelled x q = (case cn_reConnectTimer x of None \<Rightarrow> q | Some t \<Rightarrow> tq_cancel t q)"

lemma cancelled_waits [simp]: "tq_waits (cancelled x q) = tq_waits q"
  by (simp add: cancelled_def tq_cancel_eq split: option.splits)

lemma cl_stop_eq:
  assumes "client w = Some cl" and "connector w = Some x" and "cn_loop x = Some l" and "loops w l = Some e"
  shows "cl_stop w = Inr (w\<lparr>client := Some (cl\<lparr>cl_connect := False\<rparr>), connector := Some (x\<lparr>cn_connect := False\<rparr>),
    loops := (loops w)(l \<mapsto> e\<lparr>el_posted := el_posted e @ [ConnectorStopInLoop], el_timers := cancelled x (el_timers e)\<rparr>)\<rparr>)"
  using assms
  by (simp add: cl_stop_def upd_client_def with_client_def cn_stop_def upd_connector_def with_connector_def
      loop_simps el_cancel_def upd_loop_def with_loop_def cancelled_def split: option.splits)

section \<open>A client in its own loop\<close>

text \<open>A client on loop 0 in thread 1 whose first attempt is under way, and the same client connected.\<close>

definition sample_client :: tcp_client where
  "sample_client = \<lparr>cl_loop = 0, cl_name = ''C'', cl_connectionCallback = Some DefaultCallback,
     cl_messageCallback = Some DefaultCallback, cl_writeCompleteCallback = None, cl_retry = False,
     cl_connect = True, cl_nextConnId = 1, cl_connection = None\<rparr>"

definition idle_loop :: event_loop where
  "idle_loop = \<lparr>el_threadId = 1, el_work = True, el_stopped = False, el_posted = [], el_timers = new_TimerQueue,
     el_context = None\<rparr>"

definition connecting_world :: client_world where
  "connecting_world =
     \<lparr>this_thread = 1, t_loopInThisThread = (\<lambda>_. None)(1 := Some 0),
      loops = [0 \<mapsto> idle_loop],
      conns = Map.empty, pending = [ConnectOp 7], sock_calls = [], sock_loop = [7 \<mapsto> 0],
      next_conn = 3, next_sock = 8, reported = (\<lambda>_. []),
      connector = Some ((new_Connector (Some 0) sample_endpoint)\<lparr>cn_connect := True, cn_state := cn_kConnecting,
        cn_newConnectionCallback := True, cn_socketWeakPtr := Some 7\<rparr>),
      client = Some sample_client\<rparr>"

lemma connecting_world_attempting: "attempting 0 500 connecting_world"
  by (simp add: attempting_def connecting_world_def new_Connector_def kInitRetryDelayMs_def)

text \<open>Connection \<open>c\<close> of the client, with its read outstanding as the \<open>i\<close>-th operation.\<close>

definition linked :: "'a client_world_scheme conn_env \<Rightarrow> conn_id \<Rightarrow> tcp_connection \<Rightarrow> tcp_client \<Rightarrow> connector \<Rightarrow>
    event_loop \<Rightarrow> 'a client_world_scheme \<Rightarrow> bool" where
  "linked u c k cl x e w \<longleftrightarrow> client w = Some cl \<and> connector w = Some x \<and> conns w c = Some k \<and> quiet u c k
     \<and> c_loop k = Some (cl_loop cl) \<and> cn_loop x = Some (cl_loop cl) \<and> cn_state x = cn_kConnected
     \<and> c_closeCallback k \<and> cl_connection cl = Some c \<and> 1 \<le> c_refs k
     \<and> sock_loop w (c_socket k) = Some (cl_loop cl) \<and> loops w (cl_loop cl) = Some e"

definition linked_conn :: tcp_connection where
  "linked_conn = open_conn\<lparr>c_name := ''C:127.0.0.1:80#1''\<rparr>"

definition linked_client :: "bool \<Rightarrow> tcp_client" where
  "linked_client retry = sample_client\<lparr>cl_nextConnId := 2, cl_retry := retry, cl_connection := Some 3\<rparr>"

definition linked_connector :: connector where
  "linked_connector = (new_Connector (Some 0) sample_endpoint)\<lparr>cn_connect := True, cn_state := cn_kConnected,
     cn_newConnectionCallback := True, cn_socketWeakPtr := Some 7\<rparr>"

definition linked_world :: "bool \<Rightarrow> client_world" where
  "linked_world retry = connecting_world\<lparr>conns := [3 \<mapsto> linked_conn], pending := [ReadOp 7 3 8 8],
     next_conn := 4, reported := (\<lambda>_. [])(3 := [True]), connector := Some linked_connector,
     client := Some (linked_client retry)\<rparr>"

lemma linked_conn_state:
  "c_state linked_conn = kConnected \<or> c_state linked_conn = kDisconnecting" "c_refs linked_conn = 1"
  by (simp_all add: linked_conn_def open_conn_def)

lemma linked_world_pending:
  "0 < length (pending (linked_world retry))" "pending (linked_world retry) ! 0 = ReadOp (c_socket linked_conn) 3 8 8"
  by (simp_all add: linked_world_def linked_conn_def open_conn_def)

lemma linked_world_linked:
  "linked plain_env 3 linked_conn (linked_client retry) linked_connector idle_loop (linked_world retry)"
  by (simp add: linked_def linked_world_def connecting_world_def linked_conn_def open_conn_def linked_client_def
      sample_client_def linked_connector_def new_Connector_def quiet_def)

text \<open>\<open>w'\<close> is a later world of \<open>w\<close> in which the connector has given up.\<close>

definition given_up :: "loop_id \<Rightarrow> 'a client_world_scheme \<Rightarrow> 'a client_world_scheme \<Rightarrow> bool" where
  "given_up l w w' \<longleftrightarrow> map_option cn_state (connector w') = Some cn_kDisconnected
     \<and> map_option cn_connect (connector w') = Some False
     \<and> pending w' = butlast (pending w) \<and> next_sock w' = next_sock w
     \<and> tq_waits (loop_timers l w') = tq_waits (loop_timers l w)"

section \<open>Properties\<close>

text \<open>
  C4: the connector never gives up. Whatever the errors, after each failed attempt the
  next one starts with a new socket when the timer expires, and the delays are 500 ms, doubled after
  each failure, up to 30 s.
\<close>

theorem retry_backoff:
  assumes "attempting l kInitRetryDelayMs w" and "Success \<notin> set errors"
  shows "\<exists>w'. failed_rounds u l errors w = Inr (map (\<lambda>i. min (500 * 2 ^ i) 30000) [0..<length errors], w')
    \<and> attempting l (min (500 * 2 ^ length errors) 30000) w' \<and> next_sock w' = next_sock w + length errors"
proof -
  have "attempting l (backoff 0) w" using assms(1) by (simp add: backoff_def kInitRetryDelayMs_def)
  from failed_rounds_backoff [OF this assms(2), of u] show ?thesis by (simp add: backoff_def [abs_def])
qed

theorem retry_backoff_witness:
  "\<exists>w'. failed_rounds plain_env 0 (replicate 8 OtherError) connecting_world
     = Inr ([500, 1000, 2000, 4000, 8000, 16000, 30000, 30000], w') \<and> attempting 0 30000 w' \<and> next_sock w' = 16"
proof -
  have "attempting 0 kInitRetryDelayMs connecting_world"
    using connecting_world_attempting by (simp add: kInitRetryDelayMs_def)
  from retry_backoff [OF this, of "replicate 8 OtherError" plain_env] show ?thesis
    by (simp add: upt_rec connecting_world_def)
qed

text \<open>
  C19: \<open>stop\<close> during an attempt ends the retrying, called from any thread and whether the loop runs
  \<open>stopInLoop\<close> before or after the attempt fails: the connector is disconnected, no timer is
  started, no socket is made and no operation is left over.
\<close>

theorem stop_ends_attempts:
  assumes "attempting l d w" and "client w = Some cl" and "loops w l = Some e" and "el_work e"
    and "\<not> el_stopped e" and "error \<noteq> Success"
  shows "\<exists>w1 w2.
    client_run u [Stop, ClientConn (Dispatch l (length (el_posted e))), ConnectDone (length (pending w) - 1) error] w = Inr w1
    \<and> client_run u [Stop, ConnectDone (length (pending w) - 1) error, ClientConn (Dispatch l (length (el_posted e)))] w = Inr w2
    \<and> given_up l w w1 \<and> given_up l w w2"
proof -
  obtain x s ops where a: "connector w = Some x" "cn_loop x = Some l" "cn_connect x" "cn_state x = cn_kConnecting"
    "cn_socketWeakPtr x = Some s" "sock_loop w s = Some l" "pending w = ops @ [ConnectOp s]"
    using assms(1) by (auto simp: attempting_def)
  show ?thesis
    using a assms(2-6)
    by (auto simp: cl_stop_eq dispatch_def with_loop_def client_env_def cn_stopInLoop_def with_connector_def
        loop_simps cn_setState_def upd_connector_def cn_retry_def sock_alive_def complete_connect_def
        handleConnect_def in_sock_thread_def drop_pending_def given_up_def loop_timers_def Let_def)
qed

theorem stop_ends_attempts_witness:
  "\<exists>w1. client_run plain_env [Stop, ClientConn (Dispatch 0 0), ConnectDone 0 OtherError] connecting_world = Inr w1
     \<and> given_up 0 connecting_world w1"
proof -
  have "client connecting_world = Some sample_client" "loops connecting_world 0 = Some idle_loop"
    by (simp_all add: connecting_world_def)
  from stop_ends_attempts [OF connecting_world_attempting this, of OtherError plain_env] show ?thesis
    by (simp add: connecting_world_def idle_loop_def del: client_run.simps) blast
qed

text \<open>
  C37: \<open>stop\<close> followed by \<open>connect\<close> during an attempt. In the loop's thread \<open>stopInLoop\<close> is only
  queued and \<open>connect\<close> fails the assertion in \<open>startInLoop\<close> at once. From another thread both are
  queued; \<open>stopInLoop\<close> sees \<open>connect_\<close> set again and starts a timer, the handler of the
  aborted connect starts a second one (and closes the socket of the new attempt), and the second timer
  to expire fails the assertion.
\<close>

theorem stop_then_connect_aborts:
  assumes "attempting l d w" and "client w = Some cl" and "loops w l = Some e" and "el_work e"
    and "\<not> el_stopped e" and "el_posted e = []" and "tq_waits (el_timers e) = []" and "error \<noteq> Success"
  shows "client_run u (if this_thread w = el_threadId e then [Stop, Connect]
      else [Stop, Connect, ClientConn (Dispatch l 0), ClientConn (Dispatch l 0), ConnectDone (length (pending w) - 1) error,
        TimerDone l 0 Success, TimerDone l 0 Success]) w = Inl AssertionFailed"
proof -
  obtain x s ops where a: "connector w = Some x" "cn_loop x = Some l" "cn_connect x" "cn_state x = cn_kConnecting"
    "cn_socketWeakPtr x = Some s" "sock_loop w s = Some l" "pending w = ops @ [ConnectOp s]"
    using assms(1) by (auto simp: attempting_def)
  have w: "tq_waits (cancelled x (el_timers e)) = []" using assms(7) by simp
  show ?thesis
    using a assms(2-6,8) w
    by (simp add: cl_stop_eq connect_def upd_client_def with_client_def cn_start_def upd_connector_def
        with_connector_def loop_simps cn_startInLoop_def dispatch_def with_loop_def client_env_def cn_stopInLoop_def
        cn_setState_def cn_retry_def sock_alive_def complete_connect_def handleConnect_def in_sock_thread_def
        drop_pending_def runAfter_def addTimer_def start_wait_def complete_timer_def handleTimer_def alive_def
        loop_timers_def upd_timers_def drop_wait_def tq_defs nth_append Let_def)
qed

theorem stop_then_connect_aborts_witness:
  "client_run plain_env [Stop, Connect, ClientConn (Dispatch 0 0), ClientConn (Dispatch 0 0), ConnectDone 0 OtherError,
     TimerDone 0 0 Success, TimerDone 0 0 Success] (connecting_world\<lparr>this_thread := 2\<rparr>) = Inl AssertionFailed"
proof -
  let ?w = "connecting_world\<lparr>this_thread := 2\<rparr>"
  have "attempting 0 500 ?w" using connecting_world_attempting by (simp add: attempting_def)
  moreover have "client ?w = Some sample_client" "loops ?w 0 = Some idle_loop"
    by (simp_all add: connecting_world_def)
  ultimately show ?thesis
    using stop_then_connect_aborts [of 0 500 ?w sample_client _ OtherError plain_env]
    by (simp add: new_TimerQueue_def connecting_world_def idle_loop_def del: client_run.simps)
qed

text \<open>
  C18: the peer closes the client's connection. The connection callback is called with
  \<open>connected()\<close> false, the client lets go of the connection and \<open>connectDestroyed\<close> is
  queued with the last pointer to it, after which the object is gone. With \<open>retry_\<close> and \<open>connect_\<close> set,
  a new attempt starts at once, with the initial delay. Otherwise the connector's state stays
  \<open>kConnected\<close>, and a later \<open>connect\<close> fails the assertion in \<open>startInLoop\<close>.
\<close>

theorem peer_close_of_client:
  assumes "linked u c k cl x e w" and "c_state k = kConnected \<or> c_state k = kDisconnecting" and "c_refs k = 1"
    and "i < length (pending w)" and "pending w ! i = ReadOp (c_socket k) c off len"
    and "el_work e" and "\<not> el_stopped e" and "el_posted e = []"
  shows "\<exists>w1 w2. complete (client_env u) i Eof [] w = Inr w1 \<and> reported w1 c = reported w c @ [False]
    \<and> map_option cl_connection (client w1) = Some None
    \<and> dispatch (run_closure (client_env u)) (cl_loop cl) 0 w1 = Inr w2 \<and> conns w2 c = None
    \<and> (if cl_retry cl \<and> cl_connect cl then attempting (cl_loop cl) kInitRetryDelayMs w1
       else connect w1 = Inl AssertionFailed)"
  using assms
  by (auto simp: linked_def quiet_def client_env_def cl_removeConnection_def with_client_def conn_defs cn_restart_def
      with_connector_def cn_startInLoop_def attempting_def connect_def upd_client_def cn_start_def upd_connector_def Let_def)

theorem peer_close_of_client_witness:
  "(\<exists>w1 w2. complete (client_env plain_env) 0 Eof [] (linked_world True) = Inr w1
      \<and> dispatch (run_closure (client_env plain_env)) 0 0 w1 = Inr w2 \<and> conns w2 3 = None \<and> attempting 0 500 w1)
   \<and> (\<exists>w1. complete (client_env plain_env) 0 Eof [] (linked_world False) = Inr w1 \<and> connect w1 = Inl AssertionFailed)"
proof (rule conjI)
  note h = peer_close_of_client [OF linked_world_linked linked_conn_state(1,2) linked_world_pending]
  show "\<exists>w1 w2. complete (client_env plain_env) 0 Eof [] (linked_world True) = Inr w1
     \<and> dispatch (run_closure (client_env plain_env)) 0 0 w1 = Inr w2 \<and> conns w2 3 = None \<and> attempting 0 500 w1"
    using h [of True] by (simp add: linked_client_def sample_client_def kInitRetryDelayMs_def idle_loop_def) blast
  show "\<exists>w1. complete (client_env plain_env) 0 Eof [] (linked_world False) = Inr w1 \<and> connect w1 = Inl AssertionFailed"
    using h [of False] by (simp add: linked_client_def sample_client_def idle_loop_def) blast
qed

text \<open>
  C38: destroying the client while its connection is up. In another thread than the loop's, with the
  client as the only owner of the connection, \<open>forceCloseInLoop\<close> is queued and later calls
  \<open>removeConnection\<close> of the destroyed client. In the loop's thread the close is complete before the
  client is gone, but if it is to retry, the close restarts the connector, and the handler of the new
  connect runs on the destroyed connector. Both are a use after free.
\<close>

theorem destroy_client_use_after_free:
  assumes "linked u c k cl x e w" and "c_state k = kConnected \<or> c_state k = kDisconnecting" and "c_refs k = 1"
    and "el_work e" and "\<not> el_stopped e" and "el_posted e = []"
  shows "\<exists>w1. destroy_TcpClient u w = Inr w1 \<and> client w1 = None
    \<and> (if el_threadId e \<noteq> this_thread w then
         client_run u [ClientConn (Dispatch (cl_loop cl) 0), ClientConn (Dispatch (cl_loop cl) 0)] w1 = Inl UseAfterFree
       else if cl_retry cl \<and> cl_connect cl then
         (\<forall>error. client_run u [ConnectDone (length (pending w)) error] w1 = Inl UseAfterFree)
       else pending w1 = pending w \<and> map_option c_state (conns w1 c) = Some kDisconnected)"
  using assms
  by (auto simp: linked_def quiet_def client_env_def destroy_TcpClient_def cl_removeConnection_def with_client_def
      conn_defs cn_restart_def with_connector_def cn_startInLoop_def complete_connect_def handleConnect_def
      cn_setState_def upd_connector_def Let_def)

theorem destroy_client_use_after_free_witness:
  "\<exists>w1. destroy_TcpClient plain_env (linked_world True) = Inr w1
     \<and> client_run plain_env [ConnectDone 1 Success] w1 = Inl UseAfterFree"
proof -
  from destroy_client_use_after_free [OF linked_world_linked linked_conn_state, of True] show ?thesis
    by (simp add: linked_client_def sample_client_def idle_loop_def linked_world_def connecting_world_def
        del: client_run.simps) blast
qed

text \<open>
  C28: the names of the client's connections. The part behind the client's name is cut to 31
  characters. An IPv4 address with a port has at most 21, so the first 99999999 connections have
  different names; an address text of 30 characters or more, as IPv6 has them, cuts the number off,
  and all connections of the client get the same name.
\<close>

theorem client_connection_names:
  "length (client_conn_name name peer i) \<le> length name + 31
   \<and> (length (endPoint2ipPort peer) \<le> 21 \<and> 0 \<le> i \<and> i < 10 ^ 8 \<and> 0 \<le> j \<and> j < 10 ^ 8 \<longrightarrow>
        (client_conn_name name peer i = client_conn_name name peer j \<longleftrightarrow> i = j))
   \<and> (30 \<le> length (endPoint2ipPort peer) \<longrightarrow> client_conn_name name peer i = client_conn_name name peer j)"
proof (intro conjI impI)
  show "length (client_conn_name name peer i) \<le> length name + 31"
    by (simp add: client_conn_name_def snprintf_def)
  show "client_conn_name name peer i = client_conn_name name peer j" if "30 \<le> length (endPoint2ipPort peer)"
    using that by (simp add: client_conn_name_def snprintf_def)
  assume h: "length (endPoint2ipPort peer) \<le> 21 \<and> 0 \<le> i \<and> i < 10 ^ 8 \<and> 0 \<le> j \<and> j < 10 ^ 8"
  have full: "client_conn_name name peer n = name @ '':'' @ endPoint2ipPort peer @ ''#'' @ show_int n"
    if "0 \<le> n" "n < 10 ^ 8" for n
  proof -
    have "length (show_int n) \<le> 8" using show_int_length [of n 8] that by simp
    then have "Suc (length (show_int n)) \<le> 30 - length (endPoint2ipPort peer)" using h by linarith
    then show ?thesis by (simp add: client_conn_name_def snprintf_def)
  qed
  show "client_conn_name name peer i = client_conn_name name peer j \<longleftrightarrow> i = j"
    using h full show_int_inj by auto
qed

theorem client_connection_names_witness:
  "client_conn_name ''C'' \<lparr>ep_address = ''127.0.0.1'', ep_port = 80\<rparr> 1
     \<noteq> client_conn_name ''C'' \<lparr>ep_address = ''127.0.0.1'', ep_port = 80\<rparr> 2
   \<and> client_conn_name ''C'' \<lparr>ep_address = ''2001:db8:85a3:8d3:1319:8a2e:370:7348'', ep_port = 80\<rparr> 1
     = client_conn_name ''C'' \<lparr>ep_address = ''2001:db8:85a3:8d3:1319:8a2e:370:7348'', ep_port = 80\<rparr> 2"
  using client_connection_names [of "''C''" "\<lparr>ep_address = ''127.0.0.1'', ep_port = 80\<rparr>" 1 2]
    client_connection_names [of "''C''" "\<lparr>ep_address = ''2001:db8:85a3:8d3:1319:8a2e:370:7348'', ep_port = 80\<rparr>" 1 2]
  by (simp add: endPoint2ipPort_def show_nat.simps)


text \<open>
  A client that is told to connect, fails once, retries, is connected, shuts down, and sees the peer
  close the connection.
\<close>

definition idle_client_world :: client_world where
  "idle_client_world = connecting_world\<lparr>pending := [], connector := Some ((new_Connector (Some 0) sample_endpoint)
     \<lparr>cn_newConnectionCallback := True\<rparr>)\<rparr>"

definition second_try :: "client_event list" where
  "second_try = [Connect, ConnectDone 0 OtherError, TimerDone 0 0 Success, ConnectDone 0 Success, Disconnect,
     ClientConn (Complete 0 Eof [])]"

lemma client_run_reach:
  "reach no_conns (client_step u) w \<Longrightarrow> client_run u as w = Inr w' \<Longrightarrow> reach no_conns (client_step u) w'"
proof (induction as arbitrary: w)
  case (Cons a as)
  then obtain w1 where "client_exec u a w = Inr w1" and "client_run u as w1 = Inr w'"
    by (auto simp: bindR_eq_Inr)
  with Cons show ?case by (metis reach_step client_step_exec)
qed simp


end
