(* ===== verification/WellFormedNet.thy ===== *)
theory WellFormedNet
  imports WellFormed TcpServer ClientRetry
begin

text \<open>
  Server and client keep their worlds well-formed: each operation, in the order of the sources, and then
  every reachable state.
\<close>

section \<open>Access to server, acceptor, client and connector\<close>

lemma with_acceptor_Inr: "with_acceptor f w = Inr y \<longleftrightarrow> (\<exists>a. acceptor w = Some a \<and> f a = Inr y)"
  by (simp add: with_acceptor_def split: option.splits)

lemma keeps_server [keeps_rules]:
  "(\<And>sv. keeps I (\<lambda>w. f sv w)) \<Longrightarrow> keeps I (\<lambda>w. with_server (\<lambda>sv. f sv w) w)"
  by (rule keepsI) (metis (no_types, lifting) with_server_Inr keepsD)

lemma keeps_acceptor [keeps_rules]:
  "(\<And>a. keeps I (\<lambda>w. f a w)) \<Longrightarrow> keeps I (\<lambda>w. with_acceptor (\<lambda>a. f a w) w)"
  by (rule keepsI) (metis (no_types, lifting) with_acceptor_Inr keepsD)

lemma keeps_client [keeps_rules]:
  "(\<And>cl. keeps I (\<lambda>w. f cl w)) \<Longrightarrow> keeps I (\<lambda>w. with_client (\<lambda>cl. f cl w) w)"
  by (rule keepsI) (metis (no_types, lifting) with_client_Inr keepsD)

lemma keeps_connector [keeps_rules]:
  "(\<And>x. keeps I (\<lambda>w. f x w)) \<Longrightarrow> keeps I (\<lambda>w. with_connector (\<lambda>x. f x w) w)"
  by (rule keepsI) (metis (no_types, lifting) with_connector_Inr keepsD)

section \<open>Users\<close>

text \<open>Nothing was made or started yet.\<close>

definition fresh_world :: "'a conn_world_scheme \<Rightarrow> bool" where
  "fresh_world w \<longleftrightarrow> conns w = Map.empty \<and> pending w = [] \<and> (\<forall>e\<in>ran (loops w). tq_map (el_timers e) = Map.empty)"

lemma fresh_world_wf: "fresh_world w \<Longrightarrow> wf_world w"
  by (auto simp: fresh_world_def wf_world_def wf_timers_def ran_def)

locale wf_user = wf_connection u for u :: "'a conn_world_scheme conn_env" +
  assumes user_message_wf: "wf_keeps (on_message u n c)"
    and user_write_complete_wf: "wf_keeps (on_write_complete u n c)"
    and user_task_wf: "wf_keeps (on_task u f)"
    and user_thread_init_wf: "wf_world w \<Longrightarrow> wf_world (on_thread_init u n l w)"

section \<open>The server\<close>

lemma server_fields_wf [simp]:
  "wf_world (w\<lparr>acceptor := a\<rparr>) = wf_world w" "wf_world (w\<lparr>io_pool := p\<rparr>) = wf_world w"
  "wf_world (w1\<lparr>server := sv\<rparr>) = wf_world w1"
  by (simp_all add: wf_world_def)

lemma listenInLoop_wf [keeps_rules]: "wf_keeps listenInLoop"
  by (rule wf_keepsI) (auto simp: listenInLoop_def with_acceptor_def async_accept_def with_loop_Inr Let_def bindR_eq_Inr
      wf_world_def split: option.splits if_splits)

lemma ac_listen_wf [keeps_rules]: "wf_keeps ac_listen"
  unfolding ac_listen_def by (rule keeps_rules)+

lemma sv_configure_wf: "wf_keeps (sv_configure sv c)"
  unfolding sv_configure_def by (rule keeps_rules)+

lemma new_EventLoop_wf: "wf_world w \<Longrightarrow> wf_world (new_EventLoop l w)"
  by (simp add: new_EventLoop_def Let_def wf_world_def wf_timers_def new_TimerQueue_def)

lemma loop_flags_wf [keeps_rules]: "wf_keeps (el_loop l)" "wf_keeps (el_quit l)"
  by (rule wf_keepsI, auto simp: el_loop_def el_quit_def upd_loop_def with_loop_Inr wf_world_def split: if_splits)+

lemma quit_loops_wf: "wf_world w \<Longrightarrow> quit_loops ls w = Inr w' \<Longrightarrow> wf_world w'"
  by (induction ls arbitrary: w) (auto simp: bindR_eq_Inr dest: wf_keepsD [OF loop_flags_wf(2)])

lemma drop_pointers_wf: "wf_world w \<Longrightarrow> drop_pointers cs w = Inr w' \<Longrightarrow> wf_world w'"
  by (induction cs arbitrary: w) (auto simp: bindR_eq_Inr dest: wf_keepsD [OF release_wf])

locale wf_server = wf_user u for u :: "'a server_world_scheme conn_env"
begin

lemma destroyed_shared_wf: "wf_keeps (runInLoop_shared l (ConnectDestroyed c) c (connectDestroyed u c))"
  by (rule runInLoop_shared_wf [OF establishing_wf(2)])

lemma removeConnectionInLoop_wf [keeps_rules]: "wf_keeps (sv_removeConnectionInLoop u c)"
proof (rule wf_keepsI)
  fix w w' :: "'a server_world_scheme"
  assume wf: "wf_world w" and "sv_removeConnectionInLoop u c w = Inr w'"
  from this(2) show "wf_world w'"
  proof (cases rule: sv_removeConnectionInLoop_steps)
    case (released sv n c' w1)
    have "wf_world w1" by (rule wf_keepsD [OF release_wf _ released(3)]) (simp add: wf)
    then show ?thesis using released(4) wf_keepsD [OF destroyed_shared_wf] by blast
  next
    case (reset sv ns w1)
    have "wf_world w1" by (simp add: reset(2) wf)
    then show ?thesis using reset(3) wf_keepsD [OF destroyed_shared_wf] by blast
  qed
qed

lemma removeConnection_wf: "wf_keeps (sv_removeConnection u c)"
  unfolding sv_removeConnection_def by (rule keeps_rules)+

lemma server_task_wf: "wf_keeps (server_task u f)"
proof (cases f)
  case (RemoveConnectionInLoop c)
  have "wf_keeps (\<lambda>w. bindR (sv_removeConnectionInLoop u c w) (release_conn c))" by (rule keeps_rules)+
  with RemoveConnectionInLoop show ?thesis by (simp add: keeps_def)
qed (use user_task_wf [of f] ac_listen_wf listenInLoop_wf in \<open>simp_all add: keeps_def\<close>)

end

sublocale wf_server \<subseteq> sv_wf: wf_env "server_env u"
  by unfold_locales (simp_all add: server_env_def connection_wf user_message_wf user_write_complete_wf
      removeConnection_wf server_task_wf)

context wf_server
begin

lemma newConnection_wf [keeps_rules]: "wf_keeps (sv_newConnection u s l)"
proof (rule wf_keepsI)
  fix w w' :: "'a server_world_scheme"
  assume wf: "wf_world w" and "sv_newConnection u s l w = Inr w'"
  from this(2) obtain sv io n c w1 w2 w3 w4 w5 where
    w1: "new_TcpConnection (server_env u) (Some io) (conn_name sv) s (w\<lparr>server := Some (sv\<lparr>sv_nextConnId := n\<rparr>)\<rparr>) = Inr (c, w1)"
    and w2: "hold_conn c (w1\<lparr>server := Some (sv\<lparr>sv_nextConnId := n,
        sv_connections := map_put (conn_name sv) c (sv_connections sv)\<rparr>)\<rparr>) = Inr w2"
    and w3: "(case map_of (sv_connections sv) (conn_name sv) of None \<Rightarrow> Inr w2 | Some old \<Rightarrow> release_conn old w2) = Inr w3"
    and w4: "sv_configure sv c w3 = Inr w4"
    and w5: "runInLoop_shared io (ConnectEstablished c) c (connectEstablished (server_env u) c) w4 = Inr w5"
    and w': "release_conn c w5 = Inr w'"
    by (rule sv_newConnection_steps)
  have "wf_world w1" by (rule new_conn_wf [OF _ w1]) (simp add: wf)
  then have "wf_world w2" by (intro wf_keepsD [OF setters_wf(8) _ w2]) simp
  then have "wf_world w3" using w3 wf_keepsD [OF release_wf] by (auto split: option.splits)
  then have "wf_world w4" using w4 by (rule wf_keepsD [OF sv_configure_wf])
  then have "wf_world w5" using w5 by (rule wf_keepsD [OF runInLoop_shared_wf [OF sv_wf.establishing_wf(1)]])
  then show "wf_world w'" using w' by (rule wf_keepsD [OF release_wf])
qed

lemma complete_accept_wf [keeps_rules]: "wf_keeps (complete_accept (sv_newConnection u) i error)"
proof (rule wf_keepsI)
  fix w w' :: "'a server_world_scheme"
  assume wf: "wf_world w" and c: "complete_accept (sv_newConnection u) i error w = Inr w'"
  have env: "wf_world (in_acceptor_thread (drop_pending i w))"
    using drop_pending_wf [OF wf] by (simp add: in_acceptor_thread_def wf_world_def split: option.splits)
  have "wf_keeps (acceptHandler (sv_newConnection u) s error)" for s
    unfolding acceptHandler_def by (rule keeps_rules)+
  from wf_keepsD [OF this env] c wf show "wf_world w'"
    by (auto simp: complete_accept_def split: if_splits io_op.splits)
qed

lemma sv_start_wf [keeps_rules]: "wf_keeps (sv_start u spawn)"
proof (rule wf_keepsI)
  fix w w' :: "'a server_world_scheme"
  assume wf: "wf_world w" and "sv_start u spawn w = Inr w'"
  from this(2) obtain sv :: tcp_server and p w1 where
    w1: "tp_start spawn (map_option (on_thread_init u) (sv_threadInitCallback sv)) (io_pool w) w = Inr (p, w1)"
    and run: "runInLoop (sv_loop sv) AcceptorListen ac_listen (w1\<lparr>io_pool := p\<rparr>) = Inr w'"
    by (auto simp: sv_start_def with_server_def with_acceptor_def bindR_eq_Inr assertR_eq_Inr Let_def split: option.splits)
  have "wf_world w1 \<and> tp_started p"
  proof (rule tp_start_keeps [where P = wf_world, OF w1 wf])
    show "wf_world (w\<lparr>this_thread := t\<rparr>)" if "wf_world w" for w :: "'a server_world_scheme" and t
      using that by (simp add: wf_world_def)
  qed (auto intro: new_EventLoop_wf wf_keepsD [OF loop_flags_wf(1)] user_thread_init_wf)
  then show "wf_world w'" by (intro wf_keepsD [OF runInLoop_wf [OF ac_listen_wf] _ run]) simp
qed

lemma destroy_connections_wf: "wf_world w \<Longrightarrow> destroy_connections u names w = Inr w' \<Longrightarrow> wf_world w'"
proof (induction names arbitrary: w)
  case (Cons name names)
  obtain sv :: tcp_server where sv: "server w = Some sv"
    using Cons.prems(2) by (auto simp: with_server_Inr)
  show ?case
  proof (cases "map_of (sv_connections sv) name")
    case None
    with Cons.prems Cons.IH sv show ?thesis by (simp add: with_server_def)
  next
    case (Some c)
    define w1 where "w1 = w\<lparr>server := Some (sv\<lparr>sv_connections := map_erase name (sv_connections sv),
      sv_reset := name # sv_reset sv\<rparr>)\<rparr>"
    obtain l w2 w3 where w2: "(case l of None \<Rightarrow> Inr w1
        | Some l \<Rightarrow> runInLoop_shared l (ConnectDestroyed c) c (connectDestroyed u c) w1) = Inr w2"
      and w3: "release_conn c w2 = Inr w3" and rest: "destroy_connections u names w3 = Inr w'"
      using Cons.prems(2) sv Some unfolding w1_def by (auto simp: with_server_def with_conn_Inr bindR_eq_Inr Let_def)
    have "wf_world w1" using Cons.prems(1) by (simp add: w1_def)
    then have "wf_world w2" using w2 wf_keepsD [OF destroyed_shared_wf] by (auto split: option.splits)
    then have "wf_world w3" using w3 by (rule wf_keepsD [OF release_wf])
    then show ?thesis using rest by (rule Cons.IH)
  qed
qed simp

lemma destroy_TcpServer_wf [keeps_rules]: "wf_keeps (destroy_TcpServer u shared)"
proof (rule wf_keepsI)
  fix w w' :: "'a server_world_scheme"
  assume wf: "wf_world w" and "destroy_TcpServer u shared w = Inr w'"
  from this(2) obtain l names cs w1 w2 w3 where w1: "destroy_connections u names w = Inr w1"
    and w2: "w2 = w1 \<or> el_quit l w1 = Inr w2" and w3: "drop_pointers cs w2 = Inr w3"
    and w': "w' = w3\<lparr>server := None, acceptor := None\<rparr>
      \<or> quit_loops (tp_loops (io_pool w3)) (w3\<lparr>server := None, acceptor := None\<rparr>) = Inr w'"
    by (rule destroy_TcpServer_steps)
  have "wf_world w1" by (rule destroy_connections_wf [OF wf w1])
  then have "wf_world w2" using w2 wf_keepsD [OF loop_flags_wf(2)] by blast
  then have "wf_world w3" using w3 by (rule drop_pointers_wf)
  then have "wf_world (w3\<lparr>server := None, acceptor := None\<rparr>)" by simp
  then show "wf_world w'" using w' quit_loops_wf by blast
qed

lemma server_exec_wf: "wf_world w \<Longrightarrow> server_exec u ev w = Inr w' \<Longrightarrow> wf_world w'"
  by (cases ev)
    (auto simp: sv_setThreadNum_def sv_setConnectionCallback_def sv_setMessageCallback_def sv_setWriteCompleteCallback_def
      setThreadInitCallback_def upd_server_def with_server_Inr assertR_eq_Inr
      dest: wf_keepsD [OF sv_wf.conn_exec_wf] wf_keepsD [OF complete_accept_wf] wf_keepsD [OF sv_start_wf]
        wf_keepsD [OF destroy_TcpServer_wf])

end

sublocale wf_server \<subseteq> server_states: inductive_invariant fresh_world "server_step u" wf_world
  by unfold_locales (auto elim!: server_step.cases intro: server_exec_wf fresh_world_wf)

context wf_server
begin

lemma server_reachable_wf: "reach fresh_world (server_step u) w \<Longrightarrow> wf_world w"
  by (rule server_states.reachable_inv)

end

section \<open>The client\<close>

lemma client_fields_wf [simp]:
  "wf_world (w\<lparr>connector := x\<rparr>) = wf_world w" "wf_world (w1\<lparr>client := cl\<rparr>) = wf_world w1"
  "wf_world (w\<lparr>sock_calls := sc\<rparr>) = wf_world w" "wf_world (w\<lparr>this_thread := t\<rparr>) = wf_world w"
  by (simp_all add: wf_world_def)

lemma upd_client_wf [keeps_rules]: "wf_keeps (upd_client f)" "wf_keeps (upd_connector g)" "wf_keeps (cn_setState st)"
  by (rule wf_keepsI, auto simp: upd_client_def upd_connector_def cn_setState_def with_client_Inr with_connector_Inr)+

lemma addTimer_wf:
  assumes "wf_timers q" and "closure_owns f = None"
  shows "wf_timers (snd (addTimer f d i q))"
  using assms by (auto simp: wf_timers_def addTimer_def start_wait_def ran_def Let_def)

lemma runAfter_wf: "wf_world w \<Longrightarrow> closure_owns f = None \<Longrightarrow> runAfter l d f w = Inr (t, w') \<Longrightarrow> wf_world w'"
  using addTimer_wf [of _ f d 0]
  by (auto simp: runAfter_def with_loop_Inr wf_world_def split_beta split: if_splits)

lemma wf_timers_mono: "tq_map q' \<subseteq>\<^sub>m tq_map q \<Longrightarrow> wf_timers q \<Longrightarrow> wf_timers q'"
  by (fastforce simp: wf_timers_def ran_def map_le_def dom_def)

lemma wf_loop_put:
  "wf_world w \<Longrightarrow> loops w l = Some e \<Longrightarrow> tq_map (el_timers e') \<subseteq>\<^sub>m tq_map (el_timers e) \<Longrightarrow>
   wf_world (w\<lparr>loops := (loops w)(l \<mapsto> e')\<rparr>)"
  by (auto simp: wf_world_def intro: wf_timers_mono)

lemma el_cancel_wf [keeps_rules]: "wf_keeps (el_cancel l t)"
  by (rule wf_keepsI)
    (auto simp: el_cancel_def upd_loop_def with_loop_Inr tq_cancel_eq map_le_def intro!: wf_loop_put)

lemma cn_startInLoop_wf [keeps_rules]: "wf_keeps cn_startInLoop"
  by (rule wf_keepsI) (auto simp: cn_startInLoop_def with_connector_def assertR_eq_Inr bindR_eq_Inr wf_world_def Let_def
      split: option.splits if_splits)

lemma cn_retry_wf [keeps_rules]: "wf_keeps (cn_retry held)"
proof -
  have "wf_keeps (\<lambda>w. bindR (runAfter l d ConnectorStartInLoop (w\<lparr>sock_calls := g w\<rparr>)) (\<lambda>(t, w2). Inr (w2\<lparr>connector := h t\<rparr>)))"
    for l d h and g :: "'a connect_world_scheme \<Rightarrow> sock_call list"
    by (rule wf_keepsI) (auto simp: bindR_eq_Inr dest: runAfter_wf [rotated 2])
  moreover have "wf_keeps (\<lambda>w. Inr (w\<lparr>sock_calls := g w\<rparr>))" for g :: "'a connect_world_scheme \<Rightarrow> sock_call list"
    by (rule wf_keepsI) auto
  ultimately show ?thesis
    unfolding cn_retry_def Let_def by (intro keeps_connector keeps_option keeps_if keeps_assert keeps_return)
qed

lemma cn_restart_wf [keeps_rules]: "wf_keeps cn_restart"
proof (rule wf_keepsI)
  fix w w' :: "'a connect_world_scheme"
  assume wf: "wf_world w" and "cn_restart w = Inr w'"
  then consider "w' = w" | x where "cn_startInLoop (w\<lparr>connector := x\<rparr>) = Inr w'"
    by (auto simp: cn_restart_def with_connector_Inr bindR_eq_Inr split: option.splits)
  then show "wf_world w'"
  proof cases
    case (2 x)
    show ?thesis by (rule wf_keepsD [OF cn_startInLoop_wf _ 2]) (simp add: wf)
  qed (use wf in simp)
qed

lemma connector_wf [keeps_rules]: "wf_keeps cn_start" "wf_keeps cn_stopInLoop" "wf_keeps cn_stop"
  unfolding cn_start_def cn_stopInLoop_def cn_stop_def by (rule keeps_rules)+

lemma cl_removeConnection_wf [keeps_rules]: "wf_keeps (cl_removeConnection c)"
proof (rule wf_keepsI)
  fix w w' :: "'a client_world_scheme"
  assume wf: "wf_world w" and "cl_removeConnection c w = Inr w'"
  then obtain cl w1 w2 w3 where
    w1: "release_conn c (w\<lparr>client := Some (cl\<lparr>cl_connection := None\<rparr>)\<rparr>) = Inr w1"
    and w2: "hold_conn c w1 = Inr w2" and w3: "queueInLoop (cl_loop cl) (ConnectDestroyed c) w2 = Inr w3"
    and w': "(if cl_retry cl \<and> cl_connect cl then cn_restart w3 else Inr w3) = Inr w'"
    unfolding cl_removeConnection_def
    by (auto simp only: with_client_Inr bindR_eq_Inr with_conn_Inr assertR_eq_Inr)
  have "wf_world w1" by (rule wf_keepsD [OF release_wf _ w1]) (simp add: wf)
  then have "wf_world w2" using w2 by (rule wf_keepsD [OF setters_wf(8)])
  then have "wf_world w3" using w3 by (rule wf_keepsD [OF queueInLoop_wf])
  with w' show "wf_world w'" using wf_keepsD [OF cn_restart_wf] by (auto split: if_splits)
qed

lemma cl_configure_wf: "wf_keeps (cl_configure cl c)"
  unfolding cl_configure_def by (rule keeps_rules)+

locale wf_client = wf_user u for u :: "'a client_world_scheme conn_env"
begin

lemma client_task_wf: "wf_keeps (client_task u f)"
  by (cases f) (use user_task_wf [of f] cn_startInLoop_wf connector_wf(2) in \<open>simp_all add: keeps_def\<close>)

end

sublocale wf_client \<subseteq> cl_wf: wf_env "client_env u"
  by unfold_locales (simp_all add: client_env_def connection_wf user_message_wf user_write_complete_wf
      cl_removeConnection_wf client_task_wf)

context wf_client
begin

lemma cl_newConnection_wf [keeps_rules]: "wf_keeps (cl_newConnection u s)"
proof (rule wf_keepsI)
  fix w w' :: "'a client_world_scheme"
  assume wf: "wf_world w" and "cl_newConnection u s w = Inr w'"
  from this(2) obtain cl peer n c w1 w2 w3 w4 w5 where
    w1: "new_TcpConnection u (Some (cl_loop cl)) (client_conn_name (cl_name cl) peer (cl_nextConnId cl)) s
           (w\<lparr>client := Some (cl\<lparr>cl_nextConnId := n\<rparr>)\<rparr>) = Inr (c, w1)"
    and w2: "cl_configure cl c w1 = Inr w2"
    and w3: "hold_conn c (w2\<lparr>client := Some (cl\<lparr>cl_nextConnId := n, cl_connection := Some c\<rparr>)\<rparr>) = Inr w3"
    and w4: "(case cl_connection cl of None \<Rightarrow> Inr w3 | Some old \<Rightarrow> release_conn old w3) = Inr w4"
    and w5: "connectEstablished (client_env u) c w4 = Inr w5" and w': "release_conn c w5 = Inr w'"
    by (rule cl_newConnection_steps)
  have "wf_world w1" by (rule new_conn_wf [OF _ w1]) (simp add: wf)
  then have "wf_world w2" using w2 by (rule wf_keepsD [OF cl_configure_wf])
  then have "wf_world w3" by (intro wf_keepsD [OF setters_wf(8) _ w3]) simp
  then have "wf_world w4" using w4 wf_keepsD [OF release_wf] by (auto split: option.splits)
  then have "wf_world w5" using w5 by (rule wf_keepsD [OF cl_wf.establishing_wf(1)])
  then show "wf_world w'" using w' by (rule wf_keepsD [OF release_wf])
qed

lemma complete_connect_wf [keeps_rules]: "wf_keeps (complete_connect (cl_newConnection u) i error)"
proof (rule wf_keepsI)
  fix w w' :: "'a client_world_scheme"
  assume wf: "wf_world w" and c: "complete_connect (cl_newConnection u) i error w = Inr w'"
  have "wf_keeps (handleConnect (cl_newConnection u) s error)" for s
    unfolding handleConnect_def by (rule keeps_rules)+
  from wf_keepsD [OF this in_sock_thread_wf [OF drop_pending_wf [OF wf]]] c wf show "wf_world w'"
    by (auto simp: complete_connect_def split: if_splits io_op.splits)
qed

lemma complete_timer_wf [keeps_rules]: "wf_keeps (complete_timer (run_closure (client_env u)) l i error)"
proof (rule wf_keepsI)
  fix w w' :: "'a client_world_scheme"
  assume wf: "wf_world w" and t: "complete_timer (run_closure (client_env u)) l i error w = Inr w'"
  show "wf_world w'"
  proof (rule complete_timer_keeps [where P = wf_world, OF t wf])
    show "wf_world (upd_timers l f w)" if "\<And>q. tq_map (f q) \<subseteq>\<^sub>m tq_map q" and "wf_world w"
      for f and w :: "'a client_world_scheme"
      using that by (auto simp: upd_timers_def intro: wf_loop_put split: option.splits)
  qed (simp_all add: wf_keepsD [OF cl_wf.run_closure_wf])
qed

lemma disconnect_wf: "wf_keeps (disconnect (client_env u))"
  unfolding disconnect_def by (rule keeps_rules)+

lemma destroy_TcpClient_wf: "wf_keeps (destroy_TcpClient u)"
proof (rule wf_keepsI)
  fix w w' :: "'a client_world_scheme"
  assume wf: "wf_world w" and d: "destroy_TcpClient u w = Inr w'"
  obtain cl :: tcp_client and w3 w4 and cl3 :: tcp_client where
    w3: "(case cl_connection cl of
         None \<Rightarrow> cn_stop w
       | Some c \<Rightarrow>
           with_conn c (\<lambda>k.
           let unique = (c_refs k = 1) in
           bindR (hold_conn c w) (\<lambda>w1.
           assertR (c_loop k = Some (cl_loop cl)) (
           bindR (runInLoop_shared (cl_loop cl) (SetCloseCallback c) c (setCloseCallback c True) w1) (\<lambda>w2.
           bindR (if unique then forceClose (client_env u) c w2 else Inr w2)
             (release_conn c))))) w) = Inr w3"
    and w4: "(case cl_connection cl3 of None \<Rightarrow> Inr w3 | Some c \<Rightarrow> release_conn c w3) = Inr w4"
    and w': "w' = w4\<lparr>client := None, connector := None\<rparr>"
    using d unfolding destroy_TcpClient_def with_client_Inr bindR_eq_Inr by blast
  have "wf_keeps (\<lambda>w. case cl_connection cl of
         None \<Rightarrow> cn_stop w
       | Some c \<Rightarrow>
           with_conn c (\<lambda>k.
           let unique = (c_refs k = 1) in
           bindR (hold_conn c w) (\<lambda>w1.
           assertR (c_loop k = Some (cl_loop cl)) (
           bindR (runInLoop_shared (cl_loop cl) (SetCloseCallback c) c (setCloseCallback c True) w1) (\<lambda>w2.
           bindR (if unique then forceClose (client_env u) c w2 else Inr w2)
             (release_conn c))))) w)"
    unfolding Let_def by (rule keeps_rules)+
  then have "wf_world w3" using wf w3 by (rule wf_keepsD)
  then have "wf_world w4" using w4 wf_keepsD [OF release_wf] by (auto split: option.splits)
  then show "wf_world w'" by (simp add: w')
qed

lemma client_calls_wf:
  "wf_keeps connect" "wf_keeps cl_stop" "wf_keeps enableRetry" "wf_keeps (cl_setConnectionCallback cb)"
  "wf_keeps (cl_setMessageCallback cb)" "wf_keeps (cl_setWriteCompleteCallback cb)"
  unfolding connect_def cl_stop_def enableRetry_def cl_setConnectionCallback_def cl_setMessageCallback_def
    cl_setWriteCompleteCallback_def
  by (rule keeps_rules)+

lemma getConnection_wf: "wf_world w \<Longrightarrow> cl_getConnection w = Inr (c, w') \<Longrightarrow> wf_world w'"
  by (auto simp: cl_getConnection_def with_client_Inr bindR_eq_Inr split: option.splits dest: wf_keepsD [OF setters_wf(8)])

lemma client_exec_wf: "wf_world w \<Longrightarrow> client_exec u ev w = Inr w' \<Longrightarrow> wf_world w'"
  by (cases ev) (auto simp: bindR_eq_Inr dest: wf_keepsD [OF cl_wf.conn_exec_wf] wf_keepsD [OF complete_connect_wf]
      wf_keepsD [OF complete_timer_wf] wf_keepsD [OF disconnect_wf] wf_keepsD [OF destroy_TcpClient_wf]
      wf_keepsD [OF client_calls_wf(1)] wf_keepsD [OF client_calls_wf(2)] wf_keepsD [OF client_calls_wf(3)]
      wf_keepsD [OF client_calls_wf(4)] wf_keepsD [OF client_calls_wf(5)] wf_keepsD [OF client_calls_wf(6)]
      getConnection_wf)

end

sublocale wf_client \<subseteq> client_states: inductive_invariant fresh_world "client_step u" wf_world
  by unfold_locales (auto elim!: client_step.cases intro: client_exec_wf fresh_world_wf)

section \<open>Scripted users\<close>

lemma scripted_wf:
  assumes "\<And>f. wf_keeps (on_task env f)" and "\<And>n l w. on_thread_init env n l w = w"
  shows "wf_user (scripted script env)"
  by unfold_locales (simp_all add: scripted_def run_calls_wf assms)

interpretation plain_wf_server: wf_server "scripted script plain_env" for script
  by (rule wf_server.intro, rule scripted_wf) (simp_all add: plain_env_def keeps_return)

interpretation plain_wf_client: wf_client "scripted script plain_env" for script
  by (rule wf_client.intro, rule scripted_wf) (simp_all add: plain_env_def keeps_return)

section \<open>Properties\<close>



end
