(* ===== verification/ServerOwnership.thy ===== *)
theory ServerOwnership
  imports Ownership WellFormedNet
begin

text \<open>
  The owners of the connections of a server: besides the queues of the loops and the pointers that the user
  keeps, the entries of the map \<open>connections_\<close>. The balance of \<open>Ownership\<close> holds in every state,
  the destruction of the server included.
\<close>

section \<open>The map as an owner\<close>

definition server_members :: "conn_id \<Rightarrow> 'a server_world_scheme \<Rightarrow> int" where
  "server_members c w = (case server w of None \<Rightarrow> 0 | Some sv \<Rightarrow> int (count_list (map snd (sv_connections sv)) c))"

definition server_ok :: "'a server_world_scheme \<Rightarrow> bool" where
  "server_ok w \<longleftrightarrow> (case server w of None \<Rightarrow> True | Some sv \<Rightarrow> sorted_wrt (<) (map fst (sv_connections sv)))"

abbreviation sv_own :: "(conn_id \<Rightarrow> int) \<Rightarrow> 'a server_world_scheme \<Rightarrow> bool" where
  "sv_own \<equiv> own_inv server_members server_ok"

lemma server_more:
  fixes w w' :: "'a server_world_scheme"
  shows "conn_world.more w = conn_world.more w' \<Longrightarrow> server w = server w'"
  by (cases w; cases w') simp

lemma server_members_eq: "server w' = server w \<Longrightarrow> server_members c w' = server_members c w"
  by (simp add: server_members_def)

lemma server_ok_eq: "server w' = server w \<Longrightarrow> server_ok w' = server_ok w"
  by (simp add: server_ok_def)

interpretation sv_view: owner_view server_members server_ok
proof
  fix w w' :: "'a server_world_scheme" and c
  assume more: "conn_world.more w = conn_world.more w'"
  show "server_members c w = server_members c w'" using server_more [OF more] by (simp add: server_members_def)
  show "server_ok w \<Longrightarrow> server_ok w'" using server_more [OF more] by (simp add: server_ok_def)
qed

text \<open>Steps of the higher layers that leave the server's map, the counts and the queues alone.\<close>

lemma sv_own_frame:
  fixes w w' :: "'a server_world_scheme"
  assumes "sv_own H w" and "server w' = server w" and "conns w' = conns w" and "next_conn w' = next_conn w"
    and "loops w' = loops w"
  shows "sv_own H w'"
proof (rule own_inv_frame [OF assms(1)])
  show "server_members c w' = server_members c w" for c by (rule server_members_eq [OF assms(2)])
  show "server_ok w'" using assms(1) by (simp add: own_inv_def server_ok_eq [OF assms(2)])
qed (simp_all add: assms(3-5))

lemma listenInLoop_keeps [keeps_rules]: "keeps sv_own listenInLoop"
  by (rule keepsI, erule sv_own_frame)
    (auto simp: listenInLoop_def with_acceptor_def async_accept_def with_loop_Inr Let_def bindR_eq_Inr
      split: option.splits if_splits)

lemma ac_listen_keeps [keeps_rules]: "keeps sv_own ac_listen"
  unfolding ac_listen_def by (rule keeps_rules sv_view.runInLoop_keeps | simp)+

subsection \<open>Entries added and erased\<close>

lemma map_erase_Cons: "map_erase n ((m, c) # xs) = (if m = n then map_erase n xs else (m, c) # map_erase n xs)"
  by (simp add: map_erase_def)

lemma map_erase_absent: "n \<notin> set (map fst xs) \<Longrightarrow> map_erase n xs = xs"
  by (induction xs) (auto simp: map_erase_def)

lemma map_erase_sorted: "sorted_wrt (<) (map fst xs) \<Longrightarrow> sorted_wrt (<) (map fst (map_erase n xs))"
proof (induction xs)
  case (Cons x xs)
  have "set (map_erase n xs) \<subseteq> set xs" by (auto simp: map_erase_def)
  with Cons show ?case by (cases x) (fastforce simp: map_erase_Cons)
qed (simp add: map_erase_def)

lemma count_map_erase:
  "sorted_wrt (<) (map fst xs) \<Longrightarrow> map_of xs n = Some c \<Longrightarrow>
     count_list (map snd xs) d = count_list (map snd (map_erase n xs)) d + (if d = c then 1 else 0)"
proof (induction xs)
  case (Cons x xs)
  obtain m b where x: "x = (m, b)" by force
  show ?case
  proof (cases "m = n")
    case True
    with Cons.prems x have "n \<notin> set (map fst xs)" by auto
    then have "map_erase n xs = xs" by (rule map_erase_absent)
    with True Cons.prems x show ?thesis by (auto simp: map_erase_Cons)
  qed (use Cons x in \<open>auto simp: map_erase_Cons\<close>)
qed simp

lemma map_put_keys: "set (map fst (map_put n c xs)) = insert n (set (map fst xs))"
  by (induction n c xs rule: map_put.induct) auto

lemma map_put_sorted: "sorted_wrt (<) (map fst xs) \<Longrightarrow> sorted_wrt (<) (map fst (map_put n c xs))"
proof (induction n c xs rule: map_put.induct)
  case (2 n c m b xs)
  then show ?case using map_put_keys [of n c xs] by (auto intro: less_trans)
qed simp

lemma count_map_put:
  "sorted_wrt (<) (map fst xs) \<Longrightarrow>
     int (count_list (map snd (map_put n c xs)) d) = int (count_list (map snd xs) d) + (if d = c then 1 else 0)
       - (case map_of xs n of None \<Rightarrow> 0 | Some b \<Rightarrow> if d = b then 1 else 0)"
proof (induction n c xs rule: map_put.induct)
  case (2 n c m b xs)
  have "n < m \<Longrightarrow> map_of xs n = None"
    using "2.prems" by (auto simp: map_of_eq_None_iff)
  with 2 show ?case by (auto split: option.splits)
qed simp

lemma server_erase_own:
  assumes "sv_own H w" and "server w = Some sv" and "map_of (sv_connections sv) n = Some c"
    and "sv_connections sv' = map_erase n (sv_connections sv)"
  shows "sv_own (H(c := H c + 1)) (w\<lparr>server := Some sv'\<rparr>)"
proof (rule own_inv_members [OF assms(1)])
  have sorted: "sorted_wrt (<) (map fst (sv_connections sv))"
    using assms(1,2) by (simp add: own_inv_def server_ok_def)
  then show "server_ok (w\<lparr>server := Some sv'\<rparr>)"
    by (simp add: server_ok_def assms(4) map_erase_sorted)
  show "(H(c := H c + 1)) d = H d + server_members d w
      - server_members d (w\<lparr>server := Some sv'\<rparr>)" for d
    using count_map_erase [OF sorted assms(3), of d] assms(2,4) by (simp add: server_members_def)
qed simp_all

lemma server_put_own:
  assumes "sv_own (H(c := H c + 1)) w" and "server w = Some sv" and "sv_connections sv' = map_put n c (sv_connections sv)"
  shows "sv_own (case map_of (sv_connections sv) n of None \<Rightarrow> H | Some b \<Rightarrow> H(b := H b + 1)) (w\<lparr>server := Some sv'\<rparr>)"
proof (rule own_inv_members [OF assms(1)])
  have sorted: "sorted_wrt (<) (map fst (sv_connections sv))"
    using assms(1,2) by (simp add: own_inv_def server_ok_def)
  then show "server_ok (w\<lparr>server := Some sv'\<rparr>)"
    by (simp add: server_ok_def assms(3) map_put_sorted)
  show "(case map_of (sv_connections sv) n of None \<Rightarrow> H | Some b \<Rightarrow> H(b := H b + 1)) d
      = (H(c := H c + 1)) d + server_members d w - server_members d (w\<lparr>server := Some sv'\<rparr>)" for d
    using count_map_put [OF sorted, of n c d] assms(2,3) by (auto simp: server_members_def split: option.splits)
qed simp_all

lemma server_upd_own:
  assumes "sv_own H w" and "server w = Some sv" and "sv_connections sv' = sv_connections sv"
  shows "sv_own H (w\<lparr>server := Some sv'\<rparr>)"
  by (rule own_inv_members [OF assms(1)]) (use assms in \<open>simp_all add: own_inv_def server_ok_def server_members_def\<close>)

section \<open>Users\<close>

text \<open>
  The contract of the user: callbacks keep the balance, and a thread callback makes no loops. Then the
  environment that the server makes of them for its connections keeps the contract of connections.
\<close>

locale server_own = own_connection server_members server_ok u for u :: "'a server_world_scheme conn_env" +
  assumes user_message: "keeps sv_own (on_message u n c)"
    and user_write_complete: "keeps sv_own (on_write_complete u n c)"
    and user_task: "closure_owns f = None \<Longrightarrow> keeps sv_own (on_task u f)"
    and user_thread_init: "sv_own H w \<Longrightarrow> sv_own H (on_thread_init u n l w)"
    and user_thread_loops: "dom (loops (on_thread_init u n l w)) = dom (loops w)"
begin

lemma removeConnectionInLoop_keeps [keeps_rules]: "keeps sv_own (sv_removeConnectionInLoop u c)"
proof (rule keepsI)
  fix H and w w' :: "'a server_world_scheme"
  assume inv: "sv_own H w" and rem: "sv_removeConnectionInLoop u c w = Inr w'"
  have run: "sv_own H w'" if "sv_own H w1"
    and "w' = w1 \<or> (\<exists>l. runInLoop_shared l (ConnectDestroyed c) c (connectDestroyed u c) w1 = Inr w')" for w1
  proof -
    have "keeps sv_own (runInLoop_shared l (ConnectDestroyed c) c (connectDestroyed u c))" for l
      by (rule runInLoop_shared_keeps [OF connectDestroyed_keeps]) simp
    then show ?thesis using that own_keepsD by blast
  qed
  from rem show "sv_own H w'"
  proof (cases rule: sv_removeConnectionInLoop_steps)
    case (released sv n c' w1)
    have "sv_own (H(c' := H c' + 1)) (w\<lparr>server := Some (sv\<lparr>sv_connections := map_erase n (sv_connections sv)\<rparr>)\<rparr>)"
      by (rule server_erase_own [OF inv released(1,2)]) simp
    from release_own [OF this released(3)] have "sv_own H w1" by simp
    then show ?thesis using released(4) by (rule run)
  next
    case (reset sv ns w1)
    have "sv_own H w1" unfolding reset(2) by (rule server_upd_own [OF inv reset(1)]) simp
    then show ?thesis using reset(3) by (rule run)
  qed
qed

lemma removeConnection_keeps [keeps_rules]: "keeps sv_own (sv_removeConnection u c)"
  unfolding sv_removeConnection_def
  by (rule keeps_server, rule runInLoop_shared_keeps [OF removeConnectionInLoop_keeps]) simp

end

sublocale server_own \<subseteq> sv: own_callbacks server_members server_ok "server_env u"
proof
  fix n c
  show "keeps sv_own (on_connection (server_env u) n c)" using connection_keeps by (simp add: server_env_def)
  show "keeps sv_own (on_message (server_env u) n c)" using user_message by (simp add: server_env_def)
  show "keeps sv_own (on_write_complete (server_env u) n c)" using user_write_complete by (simp add: server_env_def)
  show "keeps sv_own (on_close (server_env u) c)" using removeConnection_keeps by (simp add: server_env_def)
next
  fix f assume none: "closure_owns f = None"
  show "keeps sv_own (on_task (server_env u) f)"
  proof (rule keepsI)
    fix H w w' assume inv: "sv_own H w" and "on_task (server_env u) f w = Inr w'"
    then have t: "server_task u f w = Inr w'" by (simp add: server_env_def)
    consider "f = AcceptorListen" | "f = AcceptorListenInLoop" | "server_task u f w = on_task u f w"
      using none by (cases f) simp_all
    then show "sv_own H w'"
    proof cases
      case 1
      with t show ?thesis using own_keepsD [OF ac_listen_keeps inv] by simp
    next
      case 2
      with t show ?thesis using own_keepsD [OF listenInLoop_keeps inv] by simp
    next
      case 3
      with t have "on_task u f w = Inr w'" by simp
      then show ?thesis by (rule own_keepsD [OF user_task [OF none] inv])
    qed
  qed
next
  fix H c and w w' :: "'a server_world_scheme"
  assume inv: "sv_own (H(c := H c + 1)) w" and "on_task (server_env u) (RemoveConnectionInLoop c) w = Inr w'"
  then have "bindR (sv_removeConnectionInLoop u c w) (release_conn c) = Inr w'" by (simp add: server_env_def)
  then show "sv_own H w'" by (rule sv_view.bind_release_own [OF removeConnectionInLoop_keeps inv])
qed

section \<open>The operations of the server\<close>

lemma new_TcpConnection_server:
  fixes w w' :: "'a server_world_scheme"
  shows "new_TcpConnection env l nm s w = Inr (c, w') \<Longrightarrow> server w' = server w"
  by (auto simp: new_TcpConnection_def bindR_eq_Inr)

lemma quit_keeps:
  "keeps sv_own (el_quit l :: 'a server_world_scheme \<Rightarrow> _)" "keeps sv_own (quit_loops ls :: 'a server_world_scheme \<Rightarrow> _)"
proof -
  show quit: "keeps sv_own (el_quit l :: 'a server_world_scheme \<Rightarrow> _)" for l
    by (rule sv_view.keeps_frame) (auto simp: el_quit_def upd_loop_def with_loop_Inr queued_def split: if_splits)
  show "keeps sv_own (quit_loops ls :: 'a server_world_scheme \<Rightarrow> _)"
  proof (rule keepsI)
    fix H and w w' :: "'a server_world_scheme"
    show "sv_own H w \<Longrightarrow> quit_loops ls w = Inr w' \<Longrightarrow> sv_own H w'"
      by (induction ls arbitrary: w) (auto simp: bindR_eq_Inr dest: sv_view.own_keepsD [OF quit])
  qed
qed

lemma drop_pointers_own:
  "sv_own H w \<Longrightarrow> drop_pointers cs w = Inr w' \<Longrightarrow> sv_own (\<lambda>d. H d - int (count_list cs d)) w'"
proof (induction cs arbitrary: H w)
  case (Cons c cs)
  then obtain w1 where w1: "release_conn c w = Inr w1" and rest: "drop_pointers cs w1 = Inr w'"
    by (auto simp: bindR_eq_Inr)
  show ?case
    by (rule own_inv_cong [OF Cons.IH [OF sv_view.release_own [OF Cons.prems(1) w1] rest]]) simp
qed simp

lemma drop_pointers_server:
  fixes w w' :: "'a server_world_scheme"
  shows "drop_pointers cs w = Inr w' \<Longrightarrow> server w' = server w"
  by (induction cs arbitrary: w)
    (auto simp: bindR_eq_Inr release_conn_def destroy_TcpConnection_def with_conn_Inr upd_conn_Inr assertR_eq_Inr
      split: if_splits)

lemma sv_configure_keeps: "keeps sv_own (sv_configure sv c)"
  unfolding sv_configure_def by (intro keeps_bind sv_view.setters_keep)

context server_own
begin

lemma newConnection_keeps [keeps_rules]: "keeps sv_own (sv_newConnection u s l)"
proof (rule keepsI)
  fix H and w w' :: "'a server_world_scheme"
  assume inv: "sv_own H w" and "sv_newConnection u s l w = Inr w'"
  from this(2) obtain sv loop n c w1 w2 w3 w4 w5 where sv: "server w = Some sv" and
    w1: "new_TcpConnection (server_env u) (Some loop) (conn_name sv) s
        (w\<lparr>server := Some (sv\<lparr>sv_nextConnId := n\<rparr>)\<rparr>) = Inr (c, w1)"
    and w2: "hold_conn c (w1\<lparr>server := Some (sv\<lparr>sv_nextConnId := n,
        sv_connections := map_put (conn_name sv) c (sv_connections sv)\<rparr>)\<rparr>) = Inr w2"
    and w3: "(case map_of (sv_connections sv) (conn_name sv) of None \<Rightarrow> Inr w2
        | Some old \<Rightarrow> release_conn old w2) = Inr w3"
    and w4: "sv_configure sv c w3 = Inr w4"
    and w5: "runInLoop_shared loop (ConnectEstablished c) c (connectEstablished (server_env u) c) w4 = Inr w5"
    and w': "release_conn c w5 = Inr w'"
    by (rule sv_newConnection_steps)
  let ?old = "map_of (sv_connections sv) (conn_name sv)"
  have "sv_own H (w\<lparr>server := Some (sv\<lparr>sv_nextConnId := n\<rparr>)\<rparr>)" by (rule server_upd_own [OF inv sv]) simp
  then have own1: "sv_own (H(c := H c + 1)) w1" by (rule sv_view.new_conn_own [OF _ w1])
  have "server w1 = Some (sv\<lparr>sv_nextConnId := n\<rparr>)" using new_TcpConnection_server [OF w1] by simp
  from server_put_own [OF own1 this, of _ "conn_name sv"]
  have "sv_own (case ?old of None \<Rightarrow> H | Some b \<Rightarrow> H(b := H b + 1))
      (w1\<lparr>server := Some (sv\<lparr>sv_nextConnId := n, sv_connections := map_put (conn_name sv) c (sv_connections sv)\<rparr>)\<rparr>)"
    by simp
  note own2 = sv_view.hold_own [OF this w2]
  have own3: "sv_own (H(c := H c + 1)) w3"
  proof (cases ?old)
    case (Some b)
    with w3 have r: "release_conn b w2 = Inr w3" by simp
    show ?thesis by (rule own_inv_cong [OF sv_view.release_own [OF own2 r]]) (simp add: Some)
  qed (use own2 w3 in simp)
  have "sv_own (H(c := H c + 1)) w4" by (rule own_keepsD [OF sv_configure_keeps own3 w4])
  moreover have "keeps sv_own (runInLoop_shared loop (ConnectEstablished c) c (connectEstablished (server_env u) c))"
    by (rule runInLoop_shared_keeps [OF sv.connectEstablished_keeps]) simp
  ultimately have "sv_own (H(c := H c + 1)) w5" using own_keepsD w5 by blast
  from sv_view.release_own [OF this w'] show "sv_own H w'" by simp
qed

lemma complete_accept_keeps [keeps_rules]: "keeps sv_own (complete_accept (sv_newConnection u) i error)"
proof (rule keepsI)
  fix H and w w' :: "'a server_world_scheme"
  assume inv: "sv_own H w" and c: "complete_accept (sv_newConnection u) i error w = Inr w'"
  have env: "sv_own H (in_acceptor_thread (drop_pending i w))"
    by (rule sv_own_frame [OF inv]) (auto simp: in_acceptor_thread_def drop_pending_def split: option.splits)
  have "keeps sv_own (acceptHandler (sv_newConnection u) s error)" for s
    unfolding acceptHandler_def
    by (intro keeps_if keeps_acceptor keeps_bind keeps_return newConnection_keeps ac_listen_keeps)
  with c env inv show "sv_own H w'"
    by (auto simp: complete_accept_def split: if_splits io_op.splits dest: own_keepsD)
qed

lemma start_threads_own:
  assumes "start_threads spawn cb i n (p, w) = Inr (p', w')" and "sv_own H w"
    and "inj (\<lambda>j. snd (spawn j))" and "\<forall>j\<ge>i. loops w (snd (spawn j)) = None"
    and "cb = map_option (on_thread_init u) m"
  shows "sv_own H w'"
  using assms
proof (induction n arbitrary: i p w)
  case (Suc n)
  obtain t l where sp: "spawn i = (t, l)" by force
  define w1 where "w1 = new_EventLoop l (w\<lparr>this_thread := t\<rparr>)"
  define w2 where "w2 = (case cb of None \<Rightarrow> w1 | Some f \<Rightarrow> f l w1)"
  obtain p1 w3 where w3: "el_loop l w2 = Inr w3"
    and rest: "start_threads spawn cb (Suc i) n (p1, w3\<lparr>this_thread := this_thread w\<rparr>) = Inr (p', w')"
    using Suc.prems(1) sp unfolding w1_def w2_def by (auto simp: startLoop_def Let_def bindR_eq_Inr)
  have new: "loops w l = None" using Suc.prems(4) sp by (metis order_refl snd_conv)
  have "sv_own H w1"
    unfolding w1_def using new sv_view.own_fields(1) [OF Suc.prems(2)] by (simp add: sv_view.new_EventLoop_own)
  then have own2: "sv_own H w2"
    using Suc.prems(5) user_thread_init by (cases m) (simp_all add: w2_def)
  have own3: "sv_own H w3" by (rule own_keepsD [OF sv_view.el_loop_keeps own2 w3])
  have "dom (loops w3) = dom (loops w2)"
    using w3 by (auto simp: el_loop_def upd_loop_def with_loop_Inr split: if_splits)
  also have "\<dots> = dom (loops w1)" using Suc.prems(5) user_thread_loops by (cases m) (simp_all add: w2_def)
  finally have d: "dom (loops w3) = insert l (dom (loops w))" by (simp add: w1_def new_EventLoop_def Let_def)
  have "loops (w3\<lparr>this_thread := this_thread w\<rparr>) (snd (spawn j)) = None" if "Suc i \<le> j" for j
  proof -
    have "snd (spawn j) \<noteq> l" using injD [OF Suc.prems(3), of j i] sp that by auto
    moreover have "loops w (snd (spawn j)) = None" using Suc.prems(4) that by simp
    ultimately have "snd (spawn j) \<notin> dom (loops w3)" using d by (metis domIff insertE)
    then show ?thesis by (simp add: domIff)
  qed
  moreover have "sv_own H (w3\<lparr>this_thread := this_thread w\<rparr>)" by (rule sv_view.own_fields(1) [OF own3])
  ultimately show ?case using Suc.IH [OF rest _ Suc.prems(3) _ Suc.prems(5)] by blast
qed simp

lemma destroy_connections_own:
  "sv_own H w \<Longrightarrow> destroy_connections u names w = Inr w' \<Longrightarrow> sv_own H w'"
proof (induction names arbitrary: w)
  case (Cons name names)
  obtain sv :: tcp_server where sv: "server w = Some sv"
    using Cons.prems(2) by (auto simp: with_server_Inr)
  show ?case
  proof (cases "map_of (sv_connections sv) name")
    case None
    with Cons.prems Cons.IH sv show ?thesis by (simp add: with_server_def)
  next
    case (Some c)
    define w1 where "w1 = w\<lparr>server := Some (sv\<lparr>sv_connections := map_erase name (sv_connections sv),
      sv_reset := name # sv_reset sv\<rparr>)\<rparr>"
    obtain l w2 w3 where w2: "(case l of None \<Rightarrow> Inr w1
        | Some l \<Rightarrow> runInLoop_shared l (ConnectDestroyed c) c (connectDestroyed u c) w1) = Inr w2"
      and w3: "release_conn c w2 = Inr w3" and rest: "destroy_connections u names w3 = Inr w'"
      using Cons.prems(2) sv Some unfolding w1_def by (auto simp: with_server_def with_conn_Inr bindR_eq_Inr Let_def)
    have own1: "sv_own (H(c := H c + 1)) w1"
      unfolding w1_def by (rule server_erase_own [OF Cons.prems(1) sv Some]) simp
    have "keeps sv_own (runInLoop_shared l (ConnectDestroyed c) c (connectDestroyed u c))" for l
      by (rule runInLoop_shared_keeps [OF connectDestroyed_keeps]) simp
    from own_keepsD [OF this own1] have own2: "sv_own (H(c := H c + 1)) w2"
      using own1 w2 by (cases l) auto
    from sv_view.release_own [OF own2 w3] have "sv_own H w3" by simp
    then show ?thesis using rest by (rule Cons.IH)
  qed
qed simp

text \<open>The destructor: the pointers of the map are dropped, and then there is no map.\<close>

lemma destroy_TcpServer_keeps [keeps_rules]: "keeps sv_own (destroy_TcpServer u shared)"
proof (rule keepsI)
  fix H and w w' :: "'a server_world_scheme"
  assume inv: "sv_own H w" and "destroy_TcpServer u shared w = Inr w'"
  from this(2) obtain l names cs w1 w2 w3 where w1: "destroy_connections u names w = Inr w1"
    and w2: "w2 = w1 \<or> el_quit l w1 = Inr w2" and cs: "map_option (map snd \<circ> sv_connections) (server w2) = Some cs"
    and w3: "drop_pointers cs w2 = Inr w3"
    and w': "w' = w3\<lparr>server := None, acceptor := None\<rparr>
      \<or> quit_loops (tp_loops (io_pool w3)) (w3\<lparr>server := None, acceptor := None\<rparr>) = Inr w'"
    by (rule destroy_TcpServer_steps)
  have "sv_own H w1" by (rule destroy_connections_own [OF inv w1])
  then have "sv_own H w2" using w2 own_keepsD [OF quit_keeps(1)] by blast
  note own3 = drop_pointers_own [OF this w3]
  have srv: "server w3 = server w2" by (rule drop_pointers_server [OF w3])
  have "sv_own H (w3\<lparr>server := None, acceptor := None\<rparr>)"
    by (rule own_inv_members [OF own3]) (use cs in \<open>auto simp: server_ok_def server_members_def srv\<close>)
  then show "sv_own H w'" using w' own_keepsD [OF quit_keeps(2)] by blast
qed

lemma sv_start_own:
  assumes "sv_own H w" and "sv_start u spawn w = Inr w'"
    and "inj (\<lambda>j. snd (spawn j))" and "\<forall>j. loops w (snd (spawn j)) = None"
  shows "sv_own H w'"
proof -
  obtain p w1 and sv :: tcp_server where w1: "tp_start spawn (map_option (on_thread_init u) (sv_threadInitCallback sv)) (io_pool w) w = Inr (p, w1)"
    and run: "runInLoop (sv_loop sv) AcceptorListen ac_listen (w1\<lparr>io_pool := p\<rparr>) = Inr w'"
    using assms(2) by (auto simp: sv_start_def with_server_def with_acceptor_def bindR_eq_Inr assertR_eq_Inr
        Let_def split: option.splits)
  let ?cb = "map_option (on_thread_init u) (sv_threadInitCallback sv)"
  have "\<exists>r. start_threads spawn ?cb 0 (nat (tp_numThreads (io_pool w))) ((io_pool w)\<lparr>tp_started := True\<rparr>, w) = Inr r
      \<and> (w1 = snd r \<or> (\<exists>f. ?cb = Some f \<and> w1 = f (tp_baseLoop (io_pool w)) (snd r)))"
    using w1 unfolding tp_start_def assertR_eq_Inr bindR_eq_Inr
    by (auto simp del: start_threads.simps split: if_splits option.splits)
  then obtain r where r: "start_threads spawn ?cb 0 (nat (tp_numThreads (io_pool w))) ((io_pool w)\<lparr>tp_started := True\<rparr>, w) = Inr r"
    and 2: "w1 = snd r \<or> (\<exists>f. ?cb = Some f \<and> w1 = f (tp_baseLoop (io_pool w)) (snd r))" by blast
  obtain p1 w2 where "r = (p1, w2)" by force
  with r 2 have w2: "start_threads spawn ?cb 0 (nat (tp_numThreads (io_pool w))) ((io_pool w)\<lparr>tp_started := True\<rparr>, w) = Inr (p1, w2)"
    and 2: "w1 = w2 \<or> (\<exists>f. ?cb = Some f \<and> w1 = f (tp_baseLoop (io_pool w)) w2)"
    by simp_all
  have "sv_own H w2" by (rule start_threads_own [OF w2 assms(1,3)]) (use assms(4) in auto)
  then have "sv_own H w1" using 2 user_thread_init by auto
  then have "sv_own H (w1\<lparr>io_pool := p\<rparr>)" by (rule sv_own_frame) simp_all
  moreover have "keeps sv_own (runInLoop (sv_loop sv) AcceptorListen ac_listen)"
    by (rule sv_view.runInLoop_keeps [OF ac_listen_keeps]) simp
  ultimately show ?thesis using run own_keepsD by blast
qed

end

section \<open>Reachable states\<close>

text \<open>
  A server, its destruction included, together with the pointers that its user keeps. The user only drops
  pointers that he has, and new loops are new objects.
\<close>

fun permitted :: "server_event \<Rightarrow> (conn_id \<Rightarrow> int) \<Rightarrow> 'a server_world_scheme \<Rightarrow> bool" where
  "permitted (ConnEvent (Release c)) H w \<longleftrightarrow> 0 < H c"
| "permitted (Start spawn) H w \<longleftrightarrow> inj (\<lambda>j. snd (spawn j)) \<and> (\<forall>j. loops w (snd (spawn j)) = None)"
| "permitted ev H w \<longleftrightarrow> True"

fun server_holds :: "server_event \<Rightarrow> 'a server_world_scheme \<Rightarrow> (conn_id \<Rightarrow> int) \<Rightarrow> conn_id \<Rightarrow> int" where
  "server_holds (ConnEvent ev) w H = user_holds ev w H"
| "server_holds ev w H = H"

inductive owned_step :: "'a server_world_scheme conn_env \<Rightarrow> (conn_id \<Rightarrow> int) \<times> 'a server_world_scheme \<Rightarrow>
    (conn_id \<Rightarrow> int) \<times> 'a server_world_scheme \<Rightarrow> bool" for u where
  owned_step_exec: "server_exec u ev w = Inr w' \<Longrightarrow> permitted ev H w \<Longrightarrow>
    owned_step u (H, w) (server_holds ev w H, w')"

definition unowned :: "(conn_id \<Rightarrow> int) \<times> 'a server_world_scheme \<Rightarrow> bool" where
  "unowned s \<longleftrightarrow> fst s = (\<lambda>_. 0) \<and> conns (snd s) = Map.empty \<and> finite (dom (loops (snd s)))
     \<and> (\<forall>c. queued_owners c (snd s) = 0) \<and> (case server (snd s) of None \<Rightarrow> True | Some sv \<Rightarrow> sv_connections sv = [])"

context server_own
begin

lemma server_exec_own:
  assumes inv: "sv_own H w" and ex: "server_exec u ev w = Inr w'" and may: "permitted ev H w"
  shows "sv_own (server_holds ev w H) w'"
proof (cases ev)
  case (ConnEvent e)
  with ex sv.conn_exec_own [OF inv] show ?thesis by simp
next
  case (AcceptDone i error)
  with ex show ?thesis using own_keepsD [OF complete_accept_keeps inv] by simp
next
  case (Start spawn)
  with ex may sv_start_own [OF inv] show ?thesis by simp
next
  case (DestroyServer shared)
  with ex show ?thesis using own_keepsD [OF destroy_TcpServer_keeps inv] by simp
next
  case (SetThreadNum n)
  with ex have "w' = w\<lparr>io_pool := tp_setThreadNum n (io_pool w)\<rparr>"
    by (auto simp: sv_setThreadNum_def with_server_Inr assertR_eq_Inr)
  then have "sv_own H w'" using sv_own_frame [OF inv] by simp
  with SetThreadNum show ?thesis by simp
qed (use ex in \<open>auto simp: sv_setConnectionCallback_def sv_setMessageCallback_def sv_setWriteCompleteCallback_def
    setThreadInitCallback_def upd_server_def with_server_Inr intro: server_upd_own [OF inv]\<close>)

lemma holds_nonneg:
  assumes "permitted ev H w" and "\<forall>c. 0 \<le> H c"
  shows "\<forall>c. 0 \<le> server_holds ev w H c"
  using assms
proof (cases ev)
  case (ConnEvent e)
  with assms show ?thesis by (cases e) auto
qed simp_all

end

sublocale server_own \<subseteq> owned: inductive_invariant unowned "owned_step u"
  "\<lambda>(H, w). sv_own H w \<and> (\<forall>c. 0 \<le> H c)"
proof
  show "case s of (H, w) \<Rightarrow> sv_own H w \<and> (\<forall>c. 0 \<le> H c)" if "unowned s" for s
    using that by (auto simp: unowned_def own_inv_def server_ok_def server_members_def split: option.splits)
  show "case t of (H, w) \<Rightarrow> sv_own H w \<and> (\<forall>c. 0 \<le> H c)"
    if "case s of (H, w) \<Rightarrow> sv_own H w \<and> (\<forall>c. 0 \<le> H c)" and "owned_step u s t" for s t
    using that(2,1) by cases (auto intro: server_exec_own dest: holds_nonneg)
qed

context server_own
begin

lemma owned_reachable: "reach unowned (owned_step u) (H, w) \<Longrightarrow> sv_own H w \<and> (\<forall>c. 0 \<le> H c)"
  using owned.reachable_inv by fastforce

end

interpretation plain_own: server_own "scripted (borrowing script) plain_env" for script
proof
  fix H n l f c and w :: "'a server_world_scheme"
  show "keeps sv_own (on_connection (scripted (borrowing script) plain_env) n c)"
    "keeps sv_own (on_message (scripted (borrowing script) plain_env) n c)"
    "keeps sv_own (on_write_complete (scripted (borrowing script) plain_env) n c)"
    by (simp_all add: scripted_def sv_view.borrowing_keeps)
  show "keeps sv_own (on_task (scripted (borrowing script) plain_env) f)"
    by (simp add: scripted_def plain_env_def keeps_return)
  show "sv_own H w \<Longrightarrow> sv_own H (on_thread_init (scripted (borrowing script) plain_env) n l w)"
    "dom (loops (on_thread_init (scripted (borrowing script) plain_env) n l w)) = dom (loops w)"
    by (simp_all add: scripted_def plain_env_def)
qed

section \<open>Properties\<close>

text \<open>
  C12: ownership of a server's connections, for any sequence of accepts, calls, dispatched function
  objects and completed operations, and through the server's destruction. The reference count of a connection
  is the number of queued function objects that bind a pointer to it, plus its entries in the server's map,
  plus the pointers that the user keeps. So whoever holds a \<open>shared_ptr\<close> finds the object alive, and an
  object that nobody owns is gone.
\<close>

theorem server_ownership:
  assumes "server_own u" and "reach unowned (owned_step u) (H, w)"
  shows "case conns w c of
      None \<Rightarrow> queued_owners c w = 0 \<and> H c = 0
        \<and> (case server w of None \<Rightarrow> True | Some sv \<Rightarrow> c \<notin> set (map snd (sv_connections sv)))
    | Some k \<Rightarrow> 1 \<le> c_refs k \<and> int (c_refs k) = int (queued_owners c w) + H c
        + (case server w of None \<Rightarrow> 0 | Some sv \<Rightarrow> int (count_list (map snd (sv_connections sv)) c))"
proof -
  have inv: "sv_own H w" "0 \<le> H c" using server_own.owned_reachable [OF assms] by simp_all
  have b: "balanced (map_option c_refs (conns w c)) (int (queued_owners c w) + server_members c w + H c)"
    using inv(1) by (simp add: own_inv_def)
  show ?thesis
  proof (cases "conns w c")
    case None
    have "0 \<le> server_members c w" by (simp add: server_members_def split: option.splits)
    with None b inv(2) have "queued_owners c w = 0" "H c = 0" "server_members c w = 0" by simp_all
    then show ?thesis
      using None by (simp add: server_members_def count_list_0_iff split: option.splits)
  next
    case (Some k)
    with b show ?thesis by (simp add: server_members_def algebra_simps split: option.splits)
  qed
qed

text \<open>A server that accepts a connection, of which its user keeps a pointer; the peer closes it.\<close>

fun owned_run :: "'a server_world_scheme conn_env \<Rightarrow> server_event list \<Rightarrow> (conn_id \<Rightarrow> int) \<times> 'a server_world_scheme \<Rightarrow>
    ((conn_id \<Rightarrow> int) \<times> 'a server_world_scheme) result" where
  "owned_run u [] s = Inr s"
| "owned_run u (ev # evs) (H, w) = assertR (permitted ev H w) (
     bindR (server_exec u ev w) (\<lambda>w1. owned_run u evs (server_holds ev w H, w1)))"

lemma owned_run_reach:
  "reach unowned (owned_step u) s \<Longrightarrow> owned_run u evs s = Inr s' \<Longrightarrow> reach unowned (owned_step u) s'"
proof (induction evs arbitrary: s)
  case (Cons ev evs)
  obtain H w where s: "s = (H, w)" by force
  with Cons.prems(2) obtain w1 where "permitted ev H w" "server_exec u ev w = Inr w1"
    "owned_run u evs (server_holds ev w H, w1) = Inr s'"
    by (auto simp: assertR_eq_Inr bindR_eq_Inr)
  with Cons s show ?case by (metis reach_step owned_step_exec)
qed simp

definition kept_client :: "server_event list" where
  "kept_client = [Start (\<lambda>i. (i + 10, i + 10)), AcceptDone 0 Success, ConnEvent (Hold 4), ConnEvent (Complete 0 Eof [])]"

theorem server_ownership_witness:
  "\<exists>H w k. owned_run plain_env kept_client (\<lambda>_. 0, fresh_server_world) = Inr (H, w) \<and> conns w 4 = Some k
     \<and> c_refs k = 1 \<and> H 4 = 1"
proof -
  have "inj (\<lambda>j::nat. j + 10)" by simp
  then have "case owned_run plain_env kept_client (\<lambda>_. 0, fresh_server_world) of Inl e \<Rightarrow> False
     | Inr (H, w) \<Rightarrow> (\<exists>k. conns w 4 = Some k) \<and> H 4 = 1 \<and> queued_owners 4 w = 0
         \<and> map_option sv_connections (server w) = Some []"
    by (simp add: kept_client_def fresh_server_world_def stopped_server_world_def serving_world_def
        sample_server_def plain_env_def server_env_def new_Buffer_default conn_defs sv_start_def with_server_def
        tp_start_def new_EventLoopThreadPool_def with_acceptor_def ac_listen_def listenInLoop_def listenning_def
        getNextLoop_def async_accept_def complete_accept_def acceptHandler_def in_acceptor_thread_def
        sv_newConnection_def sv_configure_def incr_int_def int_max_def sv_removeConnection_def
        sv_removeConnectionInLoop_def map_erase_def queued_owners_def queued_def Let_def)
  then obtain H w k where w: "owned_run plain_env kept_client (\<lambda>_. 0, fresh_server_world) = Inr (H, w)"
    "conns w 4 = Some k" "H 4 = 1" "queued_owners 4 w = 0" "map_option sv_connections (server w) = Some []"
    by (auto split: sum.splits)
  have eq: "scripted (borrowing (\<lambda>_. [])) plain_env = (plain_env :: server_world conn_env)"
    by (simp add: scripted_def borrowing_def plain_env_def fun_eq_iff)
  have "server_own (scripted (borrowing (\<lambda>_. [])) (plain_env :: server_world conn_env))"
    by (rule plain_own.server_own_axioms)
  then have u: "server_own (plain_env :: server_world conn_env)" by (simp only: eq)
  have "reach unowned (owned_step plain_env) (\<lambda>_. 0, fresh_server_world)"
    by (rule reach_init) (simp add: unowned_def fresh_server_world_def stopped_server_world_def serving_world_def
        sample_server_def queued_owners_def queued_def)
  from server_ownership [OF u owned_run_reach [OF this w(1)], of 4] w show ?thesis by auto
qed

end
