(* ===== verification/ClientOwnership.thy ===== *)
theory ClientOwnership
  imports Ownership WellFormedNet
begin

text \<open>
  The owners of the connections of a client: besides the queues of the loops and the pointers that the user
  keeps, the client's member \<open>connection_\<close>. Here the balance of \<open>Ownership\<close> holds in every state, the
  destruction of the client included.
\<close>

section \<open>The client as an owner\<close>

definition client_members :: "conn_id \<Rightarrow> 'a client_world_scheme \<Rightarrow> int" where
  "client_members c w = (case client w of None \<Rightarrow> 0 | Some cl \<Rightarrow> if cl_connection cl = Some c then 1 else 0)"

abbreviation cl_own :: "(conn_id \<Rightarrow> int) \<Rightarrow> 'a client_world_scheme \<Rightarrow> bool" where
  "cl_own \<equiv> own_inv client_members (\<lambda>w. True)"

lemma client_more:
  fixes w w' :: "'a client_world_scheme"
  shows "conn_world.more w = conn_world.more w' \<Longrightarrow> client w = client w'"
  by (cases w; cases w') simp

interpretation cl_view: owner_view client_members "\<lambda>w. True"
  by unfold_locales (auto simp: client_members_def dest: client_more)

text \<open>Steps that leave connections, queues and the client's pointer alone.\<close>

lemma cl_own_frame:
  fixes w w' :: "'a client_world_scheme"
  assumes "cl_own H w" and "map_option cl_connection (client w') = map_option cl_connection (client w)"
    and "conns w' = conns w" and "next_conn w' = next_conn w" and "dom (loops w') = dom (loops w)"
    and "\<And>l c. map_option (queued c) (loops w' l) = map_option (queued c) (loops w l)"
  shows "cl_own H w'"
proof (rule own_inv_frame [OF assms(1)])
  show "client_members c w' = client_members c w" for c
    using assms(2) by (cases "client w"; cases "client w'") (simp_all add: client_members_def)
qed (use assms(3-6) in simp_all)

lemma upd_connector_keeps [keeps_rules]: "keeps cl_own (upd_connector f)"
  by (rule keepsI, erule cl_own_frame) (auto simp: upd_connector_def with_connector_Inr)

lemma upd_client_keeps [keeps_rules]: "(\<And>cl. cl_connection (f cl) = cl_connection cl) \<Longrightarrow> keeps cl_own (upd_client f)"
  by (rule keepsI, erule cl_own_frame) (auto simp: upd_client_def with_client_Inr)

lemma cn_startInLoop_keeps [keeps_rules]: "keeps cl_own cn_startInLoop"
  by (rule keepsI, erule cl_own_frame)
    (auto simp: cn_startInLoop_def with_connector_Inr assertR_eq_Inr bindR_eq_Inr Let_def split: option.splits if_splits)

lemma runAfter_queues:
  "runAfter l d f w = Inr (t, w') \<Longrightarrow> conns w' = conns w \<and> next_conn w' = next_conn w \<and> client w' = client w
     \<and> dom (loops w') = dom (loops w) \<and> (\<forall>l c. map_option (queued c) (loops w' l) = map_option (queued c) (loops w l))"
  for w w' :: "'a client_world_scheme"
  by (auto simp: runAfter_def with_loop_Inr split_beta queued_def split: if_splits)

lemma sock_calls_keeps: "keeps cl_own (\<lambda>w. Inr (w\<lparr>sock_calls := f w\<rparr>))"
  by (rule keepsI) (auto intro: cl_view.own_fields(3))

lemma retry_timer_keeps:
  "keeps cl_own (\<lambda>w. bindR (runAfter l d f (w\<lparr>sock_calls := g w\<rparr>)) (\<lambda>(t, w2). Inr (w2\<lparr>connector := h t\<rparr>)))"
proof (rule keepsI)
  fix H and w w' :: "'a client_world_scheme"
  assume inv: "cl_own H w" and "bindR (runAfter l d f (w\<lparr>sock_calls := g w\<rparr>)) (\<lambda>(t, w2). Inr (w2\<lparr>connector := h t\<rparr>)) = Inr w'"
  then obtain t w2 where r: "runAfter l d f (w\<lparr>sock_calls := g w\<rparr>) = Inr (t, w2)" and w': "w' = w2\<lparr>connector := h t\<rparr>"
    by (auto simp: bindR_eq_Inr)
  show "cl_own H w'"
    by (rule cl_own_frame [OF inv]) (use runAfter_queues [OF r] w' in simp_all)
qed

lemma cn_retry_keeps [keeps_rules]: "keeps cl_own (cn_retry held)"
  unfolding cn_retry_def Let_def
  by (rule keeps_connector keeps_option keeps_if keeps_assert keeps_return sock_calls_keeps retry_timer_keeps)+

lemma cn_restart_keeps [keeps_rules]: "keeps cl_own cn_restart"
proof (rule keepsI)
  fix H and w w' :: "'a client_world_scheme"
  assume inv: "cl_own H w" and "cn_restart w = Inr w'"
  then consider "w' = w" | x where "cn_startInLoop (w\<lparr>connector := x\<rparr>) = Inr w'"
    by (auto simp: cn_restart_def with_connector_Inr bindR_eq_Inr split: option.splits)
  then show "cl_own H w'"
  proof cases
    case (2 x)
    have "cl_own H (w\<lparr>connector := x\<rparr>)" by (rule cl_own_frame [OF inv]) simp_all
    then show ?thesis using 2 by (rule cl_view.own_keepsD [OF cn_startInLoop_keeps])
  qed (use inv in simp)
qed

lemma el_cancel_keeps [keeps_rules]: "keeps cl_own (el_cancel l t)"
  by (rule keepsI, erule cl_own_frame)
    (auto simp: el_cancel_def upd_loop_def with_loop_Inr queued_def split: if_splits)

lemma connector_keeps [keeps_rules]:
  "keeps cl_own cn_start" "keeps cl_own cn_stopInLoop" "keeps cl_own cn_stop"
  unfolding cn_start_def cn_stopInLoop_def cn_stop_def cn_setState_def
  by (intro keeps_bind upd_connector_keeps keeps_connector keeps_option keeps_return cl_view.runInLoop_keeps
      cn_startInLoop_keeps keeps_query keeps_if cn_retry_keeps cl_view.queueInLoop_keeps el_cancel_keeps; simp)+

text \<open>The client's pointer changes hands.\<close>

lemma client_slot_own:
  assumes "cl_own H w" and "client w = Some cl"
  shows "cl_own (\<lambda>d. H d + (if cl_connection cl = Some d then 1 else 0) - (if cl_connection cl' = Some d then 1 else 0))
    (w\<lparr>client := Some cl'\<rparr>)"
  by (rule own_inv_members [OF assms(1)]) (use assms(2) in \<open>simp_all add: client_members_def\<close>)

lemma client_take_own:
  assumes "cl_own H w" and "client w = Some cl" and "cl_connection cl = Some c"
  shows "cl_own (H(c := H c + 1)) (w\<lparr>client := Some (cl\<lparr>cl_connection := None\<rparr>)\<rparr>)"
  by (rule own_inv_cong [OF client_slot_own [OF assms(1,2)]]) (simp add: assms(3))

lemma cl_removeConnection_keeps [keeps_rules]: "keeps cl_own (cl_removeConnection c)"
proof (rule keepsI)
  fix H and w w' :: "'a client_world_scheme"
  assume inv: "cl_own H w" and "cl_removeConnection c w = Inr w'"
  then obtain cl w1 w2 w3 where cl: "client w = Some cl" "cl_connection cl = Some c"
    and w1: "release_conn c (w\<lparr>client := Some (cl\<lparr>cl_connection := None\<rparr>)\<rparr>) = Inr w1"
    and w2: "hold_conn c w1 = Inr w2" and w3: "queueInLoop (cl_loop cl) (ConnectDestroyed c) w2 = Inr w3"
    and w': "(if cl_retry cl \<and> cl_connect cl then cn_restart w3 else Inr w3) = Inr w'"
    unfolding cl_removeConnection_def
    by (auto simp only: with_client_Inr bindR_eq_Inr with_conn_Inr assertR_eq_Inr)
  have "cl_own H w1" using cl_view.release_own [OF client_take_own [OF inv cl] w1] by simp
  from cl_view.hold_own [OF this w2] have "cl_own (bound (ConnectDestroyed c) H) w2" by (simp add: bound_def)
  then have "cl_own H w3" using w3 by (rule cl_view.queue_own)
  with w' show "cl_own H w'" using cl_view.own_keepsD [OF cn_restart_keeps] by (auto split: if_splits)
qed

section \<open>Users\<close>

locale client_own = own_connection client_members "\<lambda>w. True" u + wf_client u for u :: "'a client_world_scheme conn_env" +
  assumes user_message: "keeps cl_own (on_message u n c)"
    and user_write_complete: "keeps cl_own (on_write_complete u n c)"
    and user_task: "closure_owns f = None \<Longrightarrow> keeps cl_own (on_task u f)"
    and user_remove: "cl_own (H(c := H c + 1)) w \<Longrightarrow> on_task u (RemoveConnectionInLoop c) w = Inr w' \<Longrightarrow> cl_own H w'"

sublocale client_own \<subseteq> cl: own_callbacks client_members "\<lambda>w. True" "client_env u"
proof
  fix n c
  show "keeps cl_own (on_connection (client_env u) n c)" using connection_keeps by (simp add: client_env_def)
  show "keeps cl_own (on_message (client_env u) n c)" using user_message by (simp add: client_env_def)
  show "keeps cl_own (on_write_complete (client_env u) n c)" using user_write_complete by (simp add: client_env_def)
  show "keeps cl_own (on_close (client_env u) c)" using cl_removeConnection_keeps by (simp add: client_env_def)
next
  fix f assume none: "closure_owns f = None"
  show "keeps cl_own (on_task (client_env u) f)"
  proof (rule keepsI)
    fix H w w' assume inv: "cl_own H w" and "on_task (client_env u) f w = Inr w'"
    then have t: "client_task u f w = Inr w'" by (simp add: client_env_def)
    consider "f = ConnectorStartInLoop" | "f = ConnectorStopInLoop" | "client_task u f w = on_task u f w"
      using none by (cases f) simp_all
    then show "cl_own H w'"
    proof cases
      case 1
      with t show ?thesis using own_keepsD [OF cn_startInLoop_keeps inv] by simp
    next
      case 2
      with t show ?thesis using own_keepsD [OF connector_keeps(2) inv] by simp
    next
      case 3
      with t have "on_task u f w = Inr w'" by simp
      then show ?thesis by (rule own_keepsD [OF user_task [OF none] inv])
    qed
  qed
next
  fix H c and w w' :: "'a client_world_scheme"
  assume inv: "cl_own (H(c := H c + 1)) w" and "on_task (client_env u) (RemoveConnectionInLoop c) w = Inr w'"
  then have "on_task u (RemoveConnectionInLoop c) w = Inr w'" by (simp add: client_env_def)
  then show "cl_own H w'" by (rule user_remove [OF inv])
qed

lemma cl_configure_keeps: "keeps cl_own (cl_configure cl c)"
  unfolding cl_configure_def by (intro keeps_bind cl_view.setters_keep)

lemma new_TcpConnection_client:
  fixes w w' :: "'a client_world_scheme"
  shows "new_TcpConnection env l nm s w = Inr (c, w') \<Longrightarrow> client w' = client w"
  by (auto simp: new_TcpConnection_def bindR_eq_Inr)

lemma cl_configure_client:
  fixes w w' :: "'a client_world_scheme"
  shows "cl_configure cl c w = Inr w' \<Longrightarrow> client w' = client w"
  by (auto simp: cl_configure_def setConnectionCallback_def setMessageCallback_def setWriteCompleteCallback_def
      setCloseCallback_def bindR_eq_Inr upd_conn_Inr)

context client_own
begin

lemma newConnection_keeps [keeps_rules]: "keeps cl_own (cl_newConnection u s)"
proof (rule keepsI)
  fix H and w w' :: "'a client_world_scheme"
  assume inv: "cl_own H w" and "cl_newConnection u s w = Inr w'"
  from this(2) obtain cl peer n c w1 w2 w3 w4 w5 where cl: "client w = Some cl"
    and w1: "new_TcpConnection u (Some (cl_loop cl)) (client_conn_name (cl_name cl) peer (cl_nextConnId cl)) s
           (w\<lparr>client := Some (cl\<lparr>cl_nextConnId := n\<rparr>)\<rparr>) = Inr (c, w1)"
    and w2: "cl_configure cl c w1 = Inr w2"
    and w3: "hold_conn c (w2\<lparr>client := Some (cl\<lparr>cl_nextConnId := n, cl_connection := Some c\<rparr>)\<rparr>) = Inr w3"
    and w4: "(case cl_connection cl of None \<Rightarrow> Inr w3 | Some old \<Rightarrow> release_conn old w3) = Inr w4"
    and w5: "connectEstablished (client_env u) c w4 = Inr w5" and w': "release_conn c w5 = Inr w'"
    by (rule cl_newConnection_steps)
  have "cl_own H (w\<lparr>client := Some (cl\<lparr>cl_nextConnId := n\<rparr>)\<rparr>)"
    by (rule cl_own_frame [OF inv]) (simp_all add: cl)
  then have own1: "cl_own (H(c := H c + 1)) w1" by (rule cl_view.new_conn_own [OF _ w1])
  have own2: "cl_own (H(c := H c + 1)) w2" by (rule own_keepsD [OF cl_configure_keeps own1 w2])
  have "client w2 = Some (cl\<lparr>cl_nextConnId := n\<rparr>)"
    using cl_configure_client [OF w2] new_TcpConnection_client [OF w1] by simp
  note own3 = cl_view.hold_own [OF client_slot_own [OF own2 this] w3]
  have "cl_own (H(c := H c + 1)) w4"
  proof (cases "cl_connection cl")
    case None
    with w4 have "w4 = w3" by simp
    then show ?thesis by (simp only:) (rule own_inv_cong [OF own3], simp add: None)
  next
    case (Some b)
    with w4 have r: "release_conn b w3 = Inr w4" by simp
    show ?thesis by (rule own_inv_cong [OF cl_view.release_own [OF own3 r]]) (simp add: Some)
  qed
  then have "cl_own (H(c := H c + 1)) w5" using w5 by (rule own_keepsD [OF cl.connectEstablished_keeps])
  from cl_view.release_own [OF this w'] show "cl_own H w'" by simp
qed

lemma handleConnect_keeps: "keeps cl_own (handleConnect (cl_newConnection u) s error)"
  unfolding handleConnect_def cn_setState_def
  by (intro keeps_if keeps_bind upd_connector_keeps keeps_connector newConnection_keeps keeps_return cn_retry_keeps)

lemma complete_connect_keeps [keeps_rules]: "keeps cl_own (complete_connect (cl_newConnection u) i error)"
proof (rule keepsI)
  fix H and w w' :: "'a client_world_scheme"
  assume inv: "cl_own H w" and c: "complete_connect (cl_newConnection u) i error w = Inr w'"
  have "keeps cl_own (\<lambda>w. handleConnect (cl_newConnection u) s error (in_sock_thread s (drop_pending i w)))" for s
    by (rule cl.environment_keeps [OF handleConnect_keeps])
  from own_keepsD [OF this inv] c inv show "cl_own H w'"
    by (auto simp: complete_connect_def split: if_splits io_op.splits)
qed

lemma complete_timer_own:
  assumes inv: "cl_own H w" and t: "complete_timer (run_closure (client_env u)) l i error w = Inr w'"
    and plain: "\<And>t f. tq_map (loop_timers l w) t = Some f \<Longrightarrow> closure_owns f = None"
  shows "cl_own H w'"
proof (rule complete_timer_keeps [where P = "cl_own H", OF t inv])
  show "cl_own H (w\<lparr>this_thread := t\<rparr>)" if "cl_own H w" for w :: "'a client_world_scheme" and t
    using that by (rule cl_view.own_fields(1))
  show "cl_own H (upd_timers l f w)" if "cl_own H w" for w :: "'a client_world_scheme" and f
    by (rule cl_own_frame [OF that]) (auto simp: upd_timers_def queued_def split: option.splits if_splits)
  show "cl_own H w2" if "tq_map (loop_timers l w) t = Some f" and "cl_own H w1"
    and "run_closure (client_env u) f w1 = Inr w2" for t f w1 w2
    using cl.run_closure_own [of f H w1 w2] plain [OF that(1)] that(2,3) by (simp add: bound_def)
qed

lemma disconnect_keeps [keeps_rules]: "keeps cl_own (disconnect (client_env u))"
  unfolding disconnect_def
  by (intro keeps_bind upd_client_keeps keeps_client keeps_option keeps_return cl_view.tc_shutdown_keeps) simp

lemma destroy_TcpClient_keeps [keeps_rules]: "keeps cl_own (destroy_TcpClient u)"
proof (rule keepsI)
  fix H and w w' :: "'a client_world_scheme"
  assume inv: "cl_own H w" and d: "destroy_TcpClient u w = Inr w'"
  obtain cl :: tcp_client and w3 w4 and cl3 :: tcp_client where
    w3: "(case cl_connection cl of
         None \<Rightarrow> cn_stop w
       | Some c \<Rightarrow>
           with_conn c (\<lambda>k.
           let unique = (c_refs k = 1) in
           bindR (hold_conn c w) (\<lambda>w1.
           assertR (c_loop k = Some (cl_loop cl)) (
           bindR (runInLoop_shared (cl_loop cl) (SetCloseCallback c) c (setCloseCallback c True) w1) (\<lambda>w2.
           bindR (if unique then forceClose (client_env u) c w2 else Inr w2)
             (release_conn c))))) w) = Inr w3"
    and cl3: "client w3 = Some cl3"
    and w4: "(case cl_connection cl3 of None \<Rightarrow> Inr w3 | Some c \<Rightarrow> release_conn c w3) = Inr w4"
    and w': "w' = w4\<lparr>client := None, connector := None\<rparr>"
    using d unfolding destroy_TcpClient_def with_client_Inr bindR_eq_Inr by blast
  have own3: "cl_own H w3"
  proof (cases "cl_connection cl")
    case None
    with w3 show ?thesis using own_keepsD [OF connector_keeps(3) inv] by simp
  next
    case (Some c)
    with w3 obtain w1 w2 w25 b where h: "hold_conn c w = Inr w1"
      and r: "runInLoop_shared (cl_loop cl) (SetCloseCallback c) c (setCloseCallback c True) w1 = Inr w2"
      and f: "(if b then forceClose (client_env u) c w2 else Inr w2) = Inr w25"
      and rel: "release_conn c w25 = Inr w3"
      by (auto simp: with_conn_Inr Let_def bindR_eq_Inr assertR_eq_Inr)
    have "keeps cl_own (runInLoop_shared (cl_loop cl) (SetCloseCallback c) c (setCloseCallback c True))"
      by (rule cl_view.runInLoop_shared_keeps [OF cl_view.setters_keep(4)]) simp
    from own_keepsD [OF this cl_view.hold_own [OF inv h] r]
    have "cl_own (H(c := H c + 1)) w25"
      using f own_keepsD [OF cl.forceClose_keeps] by (auto split: if_splits)
    from cl_view.release_own [OF this rel] show ?thesis by simp
  qed
  show "cl_own H w'"
  proof (cases "cl_connection cl3")
    case None
    with w4 w' have w'': "w' = w3\<lparr>client := None, connector := None\<rparr>" by simp
    show ?thesis by (rule own_inv_members [OF own3]) (simp_all add: w'' client_members_def cl3 None)
  next
    case (Some c)
    with w4 have rel: "release_conn c w3 = Inr w4" by simp
    have cl4: "client w4 = Some cl3"
      using rel cl3 by (auto simp: release_conn_def destroy_TcpConnection_def with_conn_Inr upd_conn_Inr assertR_eq_Inr
          split: if_splits)
    show ?thesis
      by (rule own_inv_members [OF cl_view.release_own [OF own3 rel]]) (simp_all add: w' client_members_def cl4 Some)
  qed
qed

end

section \<open>Reachable states\<close>

text \<open>
  A client together with the pointers that its user keeps; \<open>connection()\<close> gives one to the user.
\<close>

fun client_permitted :: "client_event \<Rightarrow> (conn_id \<Rightarrow> int) \<Rightarrow> bool" where
  "client_permitted (ClientConn (Release c)) H \<longleftrightarrow> 0 < H c"
| "client_permitted ev H \<longleftrightarrow> True"

fun client_holds :: "client_event \<Rightarrow> 'a client_world_scheme \<Rightarrow> (conn_id \<Rightarrow> int) \<Rightarrow> conn_id \<Rightarrow> int" where
  "client_holds (ClientConn ev) w H = user_holds ev w H"
| "client_holds GetConnection w H = (\<lambda>c. H c + client_members c w)"
| "client_holds ev w H = H"

inductive owned_client_step :: "'a client_world_scheme conn_env \<Rightarrow> (conn_id \<Rightarrow> int) \<times> 'a client_world_scheme \<Rightarrow>
    (conn_id \<Rightarrow> int) \<times> 'a client_world_scheme \<Rightarrow> bool" for u where
  owned_client_step_exec: "client_exec u ev w = Inr w' \<Longrightarrow> client_permitted ev H \<Longrightarrow>
    owned_client_step u (H, w) (client_holds ev w H, w')"

definition unowned_client :: "(conn_id \<Rightarrow> int) \<times> 'a client_world_scheme \<Rightarrow> bool" where
  "unowned_client s \<longleftrightarrow> fst s = (\<lambda>_. 0) \<and> fresh_world (snd s) \<and> finite (dom (loops (snd s)))
     \<and> (\<forall>c. queued_owners c (snd s) = 0) \<and> (case client (snd s) of None \<Rightarrow> True | Some cl \<Rightarrow> cl_connection cl = None)"

lemma client_calls_keep:
  "keeps cl_own connect" "keeps cl_own cl_stop" "keeps cl_own enableRetry" "keeps cl_own (cl_setConnectionCallback cb)"
  "keeps cl_own (cl_setMessageCallback cb)" "keeps cl_own (cl_setWriteCompleteCallback cb)"
  unfolding connect_def cl_stop_def enableRetry_def cl_setConnectionCallback_def cl_setMessageCallback_def
    cl_setWriteCompleteCallback_def
  by (intro keeps_bind upd_client_keeps connector_keeps; simp)+

context client_own
begin

lemma client_exec_own:
  assumes inv: "cl_own H w" and wf: "wf_world w" and ex: "client_exec u ev w = Inr w'"
  shows "cl_own (client_holds ev w H) w'"
proof (cases ev)
  case (ClientConn e)
  with ex cl.conn_exec_own [OF inv] show ?thesis by simp
next
  case (ConnectDone i error)
  with ex show ?thesis using own_keepsD [OF complete_connect_keeps inv] by simp
next
  case (TimerDone l i error)
  have "closure_owns f = None" if "tq_map (loop_timers l w) t = Some f" for t f
    using that wf by (auto simp: loop_timers_def wf_world_def wf_timers_def new_TimerQueue_def split: option.splits dest: ranI)
  with TimerDone ex show ?thesis by (auto intro: complete_timer_own [OF inv])
next
  case Disconnect
  with ex show ?thesis using own_keepsD [OF disconnect_keeps inv] by simp
next
  case DestroyClient
  with ex show ?thesis using own_keepsD [OF destroy_TcpClient_keeps inv] by simp
next
  case GetConnection
  with ex obtain cl where cl: "client w = Some cl"
    and c: "(case cl_connection cl of None \<Rightarrow> w' = w | Some c \<Rightarrow> hold_conn c w = Inr w')"
    by (auto simp: cl_getConnection_def with_client_Inr bindR_eq_Inr split: option.splits)
  show ?thesis
  proof (cases "cl_connection cl")
    case None
    with c have "w' = w" by simp
    show ?thesis by (simp only: \<open>w' = w\<close>, rule own_inv_cong [OF inv]) (simp add: GetConnection client_members_def cl None)
  next
    case (Some d)
    with c have h: "hold_conn d w = Inr w'" by simp
    show ?thesis
      by (rule own_inv_cong [OF cl_view.hold_own [OF inv h]]) (simp add: GetConnection client_members_def cl Some)
  qed
qed (use ex in \<open>simp_all add: own_keepsD [OF client_calls_keep(1) inv] own_keepsD [OF client_calls_keep(2) inv]
    own_keepsD [OF client_calls_keep(3) inv] own_keepsD [OF client_calls_keep(4) inv]
    own_keepsD [OF client_calls_keep(5) inv] own_keepsD [OF client_calls_keep(6) inv]\<close>)

lemma client_holds_nonneg:
  assumes "client_permitted ev H" and "\<forall>c. 0 \<le> H c"
  shows "\<forall>c. 0 \<le> client_holds ev w H c"
proof (cases ev)
  case (ClientConn e)
  with assms show ?thesis by (cases e) auto
qed (use assms(2) in \<open>simp_all add: client_members_def split: option.splits\<close>)

end

sublocale client_own \<subseteq> owned_client: inductive_invariant unowned_client "owned_client_step u"
  "\<lambda>(H, w). cl_own H w \<and> wf_world w \<and> (\<forall>c. 0 \<le> H c)"
proof
  show "case s of (H, w) \<Rightarrow> cl_own H w \<and> wf_world w \<and> (\<forall>c. 0 \<le> H c)" if "unowned_client s" for s
    using that by (auto simp: unowned_client_def own_inv_def client_members_def fresh_world_wf fresh_world_def split: option.splits)
  show "case t of (H, w) \<Rightarrow> cl_own H w \<and> wf_world w \<and> (\<forall>c. 0 \<le> H c)"
    if "case s of (H, w) \<Rightarrow> cl_own H w \<and> wf_world w \<and> (\<forall>c. 0 \<le> H c)" and "owned_client_step u s t" for s t
    using that(2,1) by cases (auto intro: client_exec_own client_exec_wf dest: client_holds_nonneg)
qed

context client_own
begin

lemma owned_client_reachable:
  "reach unowned_client (owned_client_step u) (H, w) \<Longrightarrow> cl_own H w \<and> (\<forall>c. 0 \<le> H c)"
  using owned_client.reachable_inv by fastforce

end

text \<open>
  A user whose callbacks are sequences of calls. A function object that is not the client's gives up the
  pointer it binds when it has run.
\<close>

definition releasing_env :: "'a conn_world_scheme conn_env" where
  "releasing_env = plain_env\<lparr>on_task := \<lambda>f w. case closure_owns f of None \<Rightarrow> Inr w | Some c \<Rightarrow> release_conn c w\<rparr>"

lemma releasing_wf: "wf_client (scripted script releasing_env)"
  by (rule wf_client.intro, rule scripted_wf, rule wf_keepsI)
    (auto simp: releasing_env_def plain_env_def split: option.splits dest: wf_keepsD [OF release_wf])

interpretation releasing_client: client_own "scripted (borrowing script) releasing_env" for script
proof (intro client_own.intro releasing_wf own_connection.intro own_connection_axioms.intro client_own_axioms.intro
    cl_view.owner_view_axioms)
  fix H n f c and w w' :: "'a client_world_scheme"
  show "keeps cl_own (on_connection (scripted (borrowing script) releasing_env) n c)"
    "keeps cl_own (on_message (scripted (borrowing script) releasing_env) n c)"
    "keeps cl_own (on_write_complete (scripted (borrowing script) releasing_env) n c)"
    by (simp_all add: scripted_def cl_view.borrowing_keeps)
  show "keeps cl_own (on_task (scripted (borrowing script) releasing_env) f)" if "closure_owns f = None"
    using that by (simp add: scripted_def releasing_env_def keeps_return)
  show "cl_own H w'" if "cl_own (H(c := H c + 1)) w"
    and "on_task (scripted (borrowing script) releasing_env) (RemoveConnectionInLoop c) w = Inr w'"
  proof -
    have "release_conn c w = Inr w'" using that(2) by (simp add: scripted_def releasing_env_def)
    from cl_view.release_own [OF that(1) this] show ?thesis by simp
  qed
qed

section \<open>Properties\<close>

text \<open>
  C13: ownership of a client's connections, for any sequence of connection attempts, retries, calls,
  dispatched function objects, completed operations and the client's destruction. The reference count of a
  connection is the number of queued function objects that bind a pointer to it, plus one for the client's
  \<open>connection_\<close>, plus the pointers that the user keeps. So the client and every user with a
  \<open>shared_ptr\<close> find the object alive, and an object that nobody owns is gone.
\<close>

theorem client_ownership:
  assumes "client_own u" and "reach unowned_client (owned_client_step u) (H, w)"
  shows "case conns w c of
      None \<Rightarrow> queued_owners c w = 0 \<and> H c = 0
        \<and> (case client w of None \<Rightarrow> True | Some cl \<Rightarrow> cl_connection cl \<noteq> Some c)
    | Some k \<Rightarrow> 1 \<le> c_refs k \<and> int (c_refs k) = int (queued_owners c w) + H c
        + (case client w of None \<Rightarrow> 0 | Some cl \<Rightarrow> if cl_connection cl = Some c then 1 else 0)"
proof -
  have inv: "cl_own H w" "0 \<le> H c" using client_own.owned_client_reachable [OF assms] by simp_all
  have b: "balanced (map_option c_refs (conns w c)) (int (queued_owners c w) + client_members c w + H c)"
    using inv(1) by (simp add: own_inv_def)
  show ?thesis
  proof (cases "conns w c")
    case None
    have "0 \<le> client_members c w" by (simp add: client_members_def split: option.splits)
    with None b inv(2) have "queued_owners c w = 0" "H c = 0" "client_members c w = 0" by simp_all
    then show ?thesis
      using None by (auto simp: client_members_def split: option.splits if_splits)
  next
    case (Some k)
    with b show ?thesis by (simp add: client_members_def algebra_simps split: option.splits)
  qed
qed

text \<open>A client that is connected at the second try; its user takes the connection and destroys the client.\<close>

fun owned_client_run :: "'a client_world_scheme conn_env \<Rightarrow> client_event list \<Rightarrow>
    (conn_id \<Rightarrow> int) \<times> 'a client_world_scheme \<Rightarrow> ((conn_id \<Rightarrow> int) \<times> 'a client_world_scheme) result" where
  "owned_client_run u [] s = Inr s"
| "owned_client_run u (ev # evs) (H, w) = assertR (client_permitted ev H) (
     bindR (client_exec u ev w) (\<lambda>w1. owned_client_run u evs (client_holds ev w H, w1)))"

lemma owned_client_run_reach:
  "reach unowned_client (owned_client_step u) s \<Longrightarrow> owned_client_run u evs s = Inr s' \<Longrightarrow>
   reach unowned_client (owned_client_step u) s'"
proof (induction evs arbitrary: s)
  case (Cons ev evs)
  obtain H w where s: "s = (H, w)" by force
  with Cons.prems(2) obtain w1 where "client_permitted ev H" "client_exec u ev w = Inr w1"
    "owned_client_run u evs (client_holds ev w H, w1) = Inr s'"
    by (auto simp: assertR_eq_Inr bindR_eq_Inr)
  with Cons s show ?case by (metis reach_step owned_client_step_exec)
qed simp

definition taken_connection :: "client_event list" where
  "taken_connection = [Connect, ConnectDone 0 OtherError, TimerDone 0 0 Success, ConnectDone 0 Success, GetConnection,
     DestroyClient]"

theorem client_ownership_witness:
  "\<exists>H w k. owned_client_run releasing_env taken_connection (\<lambda>_. 0, idle_client_world) = Inr (H, w)
     \<and> client w = None \<and> conns w 3 = Some k \<and> c_refs k = 1 \<and> H 3 = 1"
proof -
  have "case owned_client_run releasing_env taken_connection (\<lambda>_. 0, idle_client_world) of Inl e \<Rightarrow> False
     | Inr (H, w) \<Rightarrow> (\<exists>k. conns w 3 = Some k) \<and> H 3 = 1 \<and> queued_owners 3 w = 0 \<and> client w = None"
    by (simp add: taken_connection_def idle_client_world_def connecting_world_def idle_loop_def sample_client_def
        new_Connector_def releasing_env_def plain_env_def client_env_def new_Buffer_default conn_defs connect_def
        upd_client_def with_client_def cn_start_def upd_connector_def with_connector_def cn_startInLoop_def
        complete_connect_def handleConnect_def cn_setState_def cn_retry_def sock_alive_def runAfter_def
        addTimer_def start_wait_def complete_timer_def handleTimer_def alive_def loop_timers_def upd_timers_def
        drop_wait_def tq_defs new_TimerQueue_def cl_newConnection_def cl_configure_def incr_int_def int_max_def
        cl_getConnection_def destroy_TcpClient_def client_members_def queued_owners_def queued_def Let_def)
  then obtain H w k where w: "owned_client_run releasing_env taken_connection (\<lambda>_. 0, idle_client_world) = Inr (H, w)"
    "conns w 3 = Some k" "H 3 = 1" "queued_owners 3 w = 0" "client w = None"
    by (auto split: sum.splits)
  have eq: "scripted (borrowing (\<lambda>_. [])) releasing_env = (releasing_env :: client_world conn_env)"
    by (simp add: scripted_def borrowing_def releasing_env_def plain_env_def fun_eq_iff)
  have "client_own (scripted (borrowing (\<lambda>_. [])) (releasing_env :: client_world conn_env))"
    by (rule releasing_client.client_own_axioms)
  then have u: "client_own (releasing_env :: client_world conn_env)" by (simp only: eq)
  have "reach unowned_client (owned_client_step releasing_env) (\<lambda>_. 0, idle_client_world)"
    by (rule reach_init) (simp add: unowned_client_def fresh_world_def new_TimerQueue_def ran_def idle_client_world_def connecting_world_def idle_loop_def
        sample_client_def queued_owners_def queued_def)
  from client_ownership [OF u owned_client_run_reach [OF this w(1)], of 3] w show ?thesis by auto
qed

end
