(* ===== verification/WeakCallback.thy ===== *)
theory WeakCallback
  imports ServerOwnership ClientOwnership
begin

text \<open>
  A callback that does nothing when its object is gone, \<open>src/src/base/WeakCallback.h\<close>. The class of the
  object is a parameter: whether an object lives (\<open>lock()\<close> on a weak pointer to it succeeds), and what
  making and dropping a \<open>shared_ptr\<close> to it does. The message that an expired callback logs is not part
  of the state.
\<close>

section \<open>The class\<close>

record ('o, 'w) weak_callback =
  wc_object :: 'o
  wc_function :: "'o \<Rightarrow> 'w \<Rightarrow> 'w result"

definition makeWeakCallback :: "'o \<Rightarrow> ('o \<Rightarrow> 'w \<Rightarrow> 'w result) \<Rightarrow> ('o, 'w) weak_callback" where
  "makeWeakCallback object function = \<lparr>wc_object = object, wc_function = function\<rparr>"

definition call_weak :: "('o \<Rightarrow> 'w \<Rightarrow> bool) \<Rightarrow> ('o \<Rightarrow> 'w \<Rightarrow> 'w result) \<Rightarrow> ('o \<Rightarrow> 'w \<Rightarrow> 'w result) \<Rightarrow>
    ('o, 'w) weak_callback \<Rightarrow> 'w \<Rightarrow> 'w result" where
  "call_weak living hold_ptr release_ptr f w =
     (if living (wc_object f) w then
        bindR (hold_ptr (wc_object f) w) (\<lambda>w1.
        bindR (wc_function f (wc_object f) w1)
          (release_ptr (wc_object f)))
      else Inr w)"

section \<open>Classes with shared ownership\<close>

text \<open>
  \<open>I h w\<close>: the owners of the objects are accounted for, with \<open>h\<close> the pointers that running code keeps;
  \<open>one_more c h\<close> adds one to the object \<open>c\<close>.
\<close>

locale weak_object =
  fixes living :: "'o \<Rightarrow> 'w \<Rightarrow> bool"
    and hold_ptr release_ptr :: "'o \<Rightarrow> 'w \<Rightarrow> 'w result"
    and I :: "'h \<Rightarrow> 'w \<Rightarrow> bool"
    and one_more :: "'o \<Rightarrow> 'h \<Rightarrow> 'h"
  assumes hold_living: "I h w \<Longrightarrow> living c w \<Longrightarrow> \<exists>w1. hold_ptr c w = Inr w1"
    and hold_keeps: "I h w \<Longrightarrow> hold_ptr c w = Inr w1 \<Longrightarrow> I (one_more c h) w1"
    and held_living: "I h w0 \<Longrightarrow> I (one_more c h) w1 \<Longrightarrow> living c w1"
    and release_keeps: "I h w0 \<Longrightarrow> I (one_more c h) w1 \<Longrightarrow> release_ptr c w1 = Inr w2 \<Longrightarrow> I h w2"
begin

lemma expired: "\<not> living (wc_object f) w \<Longrightarrow> call_weak living hold_ptr release_ptr f w = Inr w"
  by (simp add: call_weak_def)

lemma alive_during_call:
  assumes "I h w" and "living (wc_object f) w" and "keeps I (wc_function f (wc_object f))"
  shows "\<exists>w1. hold_ptr (wc_object f) w = Inr w1
    \<and> (\<forall>w2. wc_function f (wc_object f) w1 = Inr w2 \<longrightarrow> living (wc_object f) w2
         \<and> call_weak living hold_ptr release_ptr f w = release_ptr (wc_object f) w2)
    \<and> (\<forall>e. wc_function f (wc_object f) w1 = Inl e \<longrightarrow> call_weak living hold_ptr release_ptr f w = Inl e)"
proof -
  obtain w1 where w1: "hold_ptr (wc_object f) w = Inr w1" using hold_living [OF assms(1,2)] by blast
  have "living (wc_object f) w2" if "wc_function f (wc_object f) w1 = Inr w2" for w2
    using held_living [OF assms(1)] keepsD [OF assms(3) hold_keeps [OF assms(1) w1] that] .
  with w1 assms(2) show ?thesis by (auto simp: call_weak_def)
qed

lemma call_weak_keeps:
  assumes "keeps I (wc_function f (wc_object f))"
  shows "keeps I (call_weak living hold_ptr release_ptr f)"
proof (rule keepsI)
  fix h w w'
  assume inv: "I h w" and call: "call_weak living hold_ptr release_ptr f w = Inr w'"
  show "I h w'"
  proof (cases "living (wc_object f) w")
    case True
    with call obtain w1 w2 where w1: "hold_ptr (wc_object f) w = Inr w1"
      and w2: "wc_function f (wc_object f) w1 = Inr w2" and w': "release_ptr (wc_object f) w2 = Inr w'"
      by (auto simp: call_weak_def bindR_eq_Inr)
    show ?thesis by (rule release_keeps [OF inv keepsD [OF assms hold_keeps [OF inv w1] w2] w'])
  qed (use inv call in \<open>simp add: call_weak_def\<close>)
qed

end

section \<open>Connections and timers\<close>

abbreviation living_conn :: "conn_id \<Rightarrow> 'a conn_world_scheme \<Rightarrow> bool" where
  "living_conn c w \<equiv> conns w c \<noteq> None"

abbreviation call_weak_conn :: "(conn_id, 'a conn_world_scheme) weak_callback \<Rightarrow> 'a conn_world_scheme \<Rightarrow>
    'a conn_world_scheme result" where
  "call_weak_conn \<equiv> call_weak living_conn hold_conn release_conn"

definition nonneg_own :: "(conn_id \<Rightarrow> 'a conn_world_scheme \<Rightarrow> int) \<Rightarrow> ('a conn_world_scheme \<Rightarrow> bool) \<Rightarrow>
    (conn_id \<Rightarrow> int) \<Rightarrow> 'a conn_world_scheme \<Rightarrow> bool" where
  "nonneg_own members ok H w \<longleftrightarrow> own_inv members ok H w \<and> (\<forall>c. 0 \<le> H c)"

lemma keeps_nonneg: "keeps (own_inv members ok) f \<Longrightarrow> keeps (nonneg_own members ok) f"
  unfolding keeps_def nonneg_own_def by blast

context owner_view
begin

lemma weak_connections:
  assumes members_nonneg: "\<And>c w. 0 \<le> members c w"
  shows "weak_object living_conn hold_conn release_conn (nonneg_own members ok) (\<lambda>c H. H(c := H c + 1))"
proof
  fix H :: "conn_id \<Rightarrow> int" and c w0 w w1 w2
  show "nonneg_own members ok H w \<Longrightarrow> living_conn c w \<Longrightarrow> \<exists>w1. hold_conn c w = Inr w1"
    by (auto simp: hold_conn_def upd_conn_def with_conn_def)
  show "nonneg_own members ok H w \<Longrightarrow> hold_conn c w = Inr w1 \<Longrightarrow> nonneg_own members ok (H(c := H c + 1)) w1"
    by (auto simp: nonneg_own_def intro: hold_own)
  show "living_conn c w1" if h: "nonneg_own members ok H w0" and own: "nonneg_own members ok (H(c := H c + 1)) w1"
  proof
    assume none: "conns w1 c = None"
    have "balanced (map_option c_refs (conns w1 c)) (int (queued_owners c w1) + members c w1 + (H c + 1))"
      using own unfolding nonneg_own_def own_inv_def by (metis fun_upd_same)
    moreover have "0 \<le> H c" using h by (simp add: nonneg_own_def)
    ultimately show False using none members_nonneg [of c w1] by simp
  qed
  show "nonneg_own members ok H w2" if h: "nonneg_own members ok H w0"
    and own: "nonneg_own members ok (H(c := H c + 1)) w1" and r: "release_conn c w1 = Inr w2"
    using release_own [OF _ r, of "H(c := H c + 1)"] h own by (simp add: nonneg_own_def)
qed

end

lemma server_members_nonneg: "0 \<le> server_members c w"
  by (simp add: server_members_def split: option.splits)

lemma client_members_nonneg: "0 \<le> client_members c w"
  by (simp add: client_members_def split: option.splits)

interpretation server_weak: weak_object living_conn hold_conn release_conn "nonneg_own server_members server_ok"
  "\<lambda>c H. H(c := H c + 1)"
  by (rule sv_view.weak_connections [OF server_members_nonneg])

interpretation client_weak: weak_object living_conn hold_conn release_conn "nonneg_own client_members (\<lambda>w. True)"
  "\<lambda>c H. H(c := H c + 1)"
  by (rule cl_view.weak_connections [OF client_members_nonneg])

text \<open>A timer queue locks its weak pointers in the same way; \<open>h\<close> counts the locals of running code.\<close>

interpretation timer_weak: weak_object "\<lambda>t q. alive q t" "\<lambda>t q. Inr (hold t q)" "\<lambda>t q. Inr (release t q)"
  "\<lambda>h q. tq_refs q = h" "\<lambda>t h. h(t := Suc (h t))"
  by unfold_locales (auto simp: alive_def hold_def release_def)

lemma tq_cancel_weak:
  "call_weak (\<lambda>t q. alive q t) (\<lambda>t q. Inr (hold t q)) (\<lambda>t q. Inr (release t q))
     (makeWeakCallback t (\<lambda>t q. Inr (case tq_map q t of None \<Rightarrow> q | Some _ \<Rightarrow> tq_erase t q))) q = Inr (tq_cancel t q)"
  by (simp add: call_weak_def makeWeakCallback_def tq_cancel_def Let_def split: option.splits)

section \<open>Properties\<close>

text \<open>
  C25: a weak callback bound to a connection of a server, called in any reachable state, with any function
  that keeps no pointer beyond its call. If the connection object is gone the callback does nothing.
  Otherwise it owns the object while the function runs, whatever the function does to the connection, and
  gives it up afterwards; a failure of the function is passed on. The balance of owners holds again when
  it returns.
\<close>

theorem weak_callback_of_server_connection:
  assumes "server_own u" and "reach unowned (owned_step u) (H, w)" and "keeps sv_own (wc_function f (wc_object f))"
  shows "(conns w (wc_object f) = None \<longrightarrow> call_weak_conn f w = Inr w)
    \<and> (\<forall>k. conns w (wc_object f) = Some k \<longrightarrow>
        (\<exists>w1. hold_conn (wc_object f) w = Inr w1
          \<and> (\<forall>w2. wc_function f (wc_object f) w1 = Inr w2 \<longrightarrow>
               conns w2 (wc_object f) \<noteq> None \<and> call_weak_conn f w = release_conn (wc_object f) w2)
          \<and> (\<forall>e. wc_function f (wc_object f) w1 = Inl e \<longrightarrow> call_weak_conn f w = Inl e)))
    \<and> (\<forall>w'. call_weak_conn f w = Inr w' \<longrightarrow> sv_own H w')"
proof -
  have inv: "nonneg_own server_members server_ok H w"
    using server_own.owned_reachable [OF assms(1,2)] by (simp add: nonneg_own_def)
  note keep = keeps_nonneg [OF assms(3)]
  have "call_weak_conn f w = Inr w" if "conns w (wc_object f) = None"
    by (rule server_weak.expired) (simp add: that)
  moreover have "sv_own H w'" if "call_weak_conn f w = Inr w'" for w'
    using server_weak.call_weak_keeps [OF keep] inv that unfolding keeps_def nonneg_own_def by blast
  ultimately show ?thesis using server_weak.alive_during_call [OF inv _ keep] by simp
qed

context server_own
begin

lemma server_forceClose_keeps: "keeps sv_own (forceClose (server_env u) c)"
  by (rule sv.forceClose_keeps)

end

text \<open>
  The library's \<open>forceClose\<close> bound weakly, as a timer for a delayed close would bind it: on an accepted
  connection it closes it, and called again it finds the object gone.
\<close>

definition weak_close :: "(conn_id, server_world) weak_callback" where
  "weak_close = makeWeakCallback 4 (forceClose (server_env plain_env))"

definition accepted :: "server_event list" where
  "accepted = [Start (\<lambda>i. (i + 10, i + 10)), AcceptDone 0 Success]"

lemma not_isl_Inr: "\<not> isl r \<Longrightarrow> \<exists>x. r = Inr x"
  by (cases r) simp_all

theorem weak_callback_of_server_connection_witness:
  "\<exists>H w. owned_run plain_env accepted (\<lambda>_. 0, fresh_server_world) = Inr (H, w) \<and> conns w 4 \<noteq> None
     \<and> (\<exists>w1 w2 w3. hold_conn 4 w = Inr w1 \<and> forceClose (server_env plain_env) 4 w1 = Inr w2 \<and> conns w2 4 \<noteq> None
         \<and> call_weak_conn weak_close w = Inr w3 \<and> sv_own H w3)"
proof -
  have "inj (\<lambda>j::nat. j + 10)" by simp
  then have "case owned_run plain_env accepted (\<lambda>_. 0, fresh_server_world) of Inl e \<Rightarrow> False
     | Inr (H, w) \<Rightarrow> conns w 4 \<noteq> None \<and> \<not> isl (bindR (hold_conn 4 w) (\<lambda>w1.
         bindR (forceClose (server_env plain_env) 4 w1) (release_conn 4)))"
    by (simp add: accepted_def fresh_server_world_def stopped_server_world_def serving_world_def
        sample_server_def plain_env_def server_env_def new_Buffer_default conn_defs sv_start_def with_server_def
        tp_start_def new_EventLoopThreadPool_def with_acceptor_def ac_listen_def listenInLoop_def listenning_def
        getNextLoop_def async_accept_def complete_accept_def acceptHandler_def in_acceptor_thread_def
        sv_newConnection_def sv_configure_def incr_int_def int_max_def sv_removeConnection_def
        sv_removeConnectionInLoop_def map_erase_def Let_def)
  then obtain H w where run: "owned_run plain_env accepted (\<lambda>_. 0, fresh_server_world) = Inr (H, w)" "conns w 4 \<noteq> None"
    and "\<not> isl (bindR (hold_conn 4 w) (\<lambda>w1. bindR (forceClose (server_env plain_env) 4 w1) (release_conn 4)))"
    by (auto split: sum.splits)
  then obtain w1 w2 w3 where w: "owned_run plain_env accepted (\<lambda>_. 0, fresh_server_world) = Inr (H, w)"
    "conns w 4 \<noteq> None" "hold_conn 4 w = Inr w1" "forceClose (server_env plain_env) 4 w1 = Inr w2"
    "release_conn 4 w2 = Inr w3"
    by (auto simp: bindR_eq_Inr dest!: not_isl_Inr)
  have eq: "scripted (borrowing (\<lambda>_. [])) plain_env = (plain_env :: server_world conn_env)"
    by (simp add: scripted_def borrowing_def plain_env_def fun_eq_iff)
  have "server_own (scripted (borrowing (\<lambda>_. [])) (plain_env :: server_world conn_env))"
    by (rule plain_own.server_own_axioms)
  then have u: "server_own (plain_env :: server_world conn_env)" by (simp only: eq)
  have "reach unowned (owned_step plain_env) (\<lambda>_. 0, fresh_server_world)"
    by (rule reach_init) (simp add: unowned_def fresh_server_world_def stopped_server_world_def serving_world_def
        sample_server_def queued_owners_def queued_def)
  note r = owned_run_reach [OF this w(1)]
  have f: "wc_object weak_close = 4" "wc_function weak_close = forceClose (server_env plain_env)"
    by (simp_all add: weak_close_def makeWeakCallback_def)
  have "keeps sv_own (wc_function weak_close (wc_object weak_close))"
    unfolding f by (rule server_own.server_forceClose_keeps [OF u])
  from weak_callback_of_server_connection [OF u r this] w show ?thesis unfolding f by fastforce
qed

end
