(* ===== verification/Logger.thy ===== *)
theory Logger
  imports Callbacks
begin

text \<open>
  The log, \<open>src/src/base/Logger.h\<close> and \<open>src/src/base/Logger.cpp\<close>. Boost.Log keeps a filter on the
  severity and passes the records that satisfy it to its sinks (\<open>log_records\<close>); without a filter every
  record passes. What a record looks like in the file is its formatter's matter. Beside the log the class
  has a display function for messages that are to be shown; \<open>printf\<close> appends to \<open>console\<close>.

  \<open>std::setw\<close> and \<open>operator<<\<close> of a thread id are Boost's: the text they give is an argument.
\<close>

section \<open>State and operations\<close>

datatype severity_level = Trace | Debug | Info | Warning | Error | Fatal

instantiation severity_level :: linorder
begin

fun severity :: "severity_level \<Rightarrow> nat" where
  "severity Trace = 0"
| "severity Debug = 1"
| "severity Info = 2"
| "severity Warning = 3"
| "severity Error = 4"
| "severity Fatal = 5"

definition less_eq_severity_level :: "severity_level \<Rightarrow> severity_level \<Rightarrow> bool" where
  "a \<le> b \<longleftrightarrow> severity a \<le> severity b"

definition less_severity_level :: "severity_level \<Rightarrow> severity_level \<Rightarrow> bool" where
  "a < b \<longleftrightarrow> severity a < severity b"

instance
proof
  fix a b :: severity_level
  show "a \<le> b \<Longrightarrow> b \<le> a \<Longrightarrow> a = b" by (cases a; cases b) (simp_all add: less_eq_severity_level_def)
qed (auto simp: less_eq_severity_level_def less_severity_level_def)

end

datatype display_log = ConsoleLog | GuiLog | UserDisplay nat

record log_state =
  log_filter :: "severity_level option"
  log_files :: "string list"
  log_records :: "(severity_level \<times> string) list"
  gdisplayLog :: "display_log option"
  console :: string
  displayed :: "(nat \<times> string) list"

definition log_init :: "string \<Rightarrow> log_state \<Rightarrow> log_state" where
  "log_init logName s = s\<lparr>log_files := log_files s @ [logName @ ''_%Y%m%d%H%M%S.log''], log_filter := Some Debug\<rparr>"

definition consoleLog :: "string \<Rightarrow> log_state \<Rightarrow> log_state" where
  "consoleLog str s = s\<lparr>console := console s @ ''log:'' @ str @ [CHR 0x0A]\<rparr>"

definition guiLog :: "string \<Rightarrow> log_state \<Rightarrow> log_state" where
  "guiLog str s = s"

definition call_display :: "display_log \<Rightarrow> string \<Rightarrow> log_state \<Rightarrow> log_state" where
  "call_display f str s = (case f of ConsoleLog \<Rightarrow> consoleLog str s | GuiLog \<Rightarrow> guiLog str s
     | UserDisplay n \<Rightarrow> s\<lparr>displayed := displayed s @ [(n, str)]\<rparr>)"

text \<open>The string that a function reads through \<open>c_str()\<close> ends at the first null character.\<close>

definition c_string :: "string \<Rightarrow> string" where
  "c_string msg = takeWhile (\<lambda>c. c \<noteq> CHR 0x00) msg"

definition display :: "string \<Rightarrow> log_state \<Rightarrow> log_state" where
  "display msg s = (case gdisplayLog s of None \<Rightarrow> s | Some f \<Rightarrow> call_display f (c_string msg) s)"

definition setDisplay :: "display_log option \<Rightarrow> log_state \<Rightarrow> log_state" where
  "setDisplay displayLog s = s\<lparr>gdisplayLog := displayLog\<rparr>"

definition setDisplay_default :: "log_state \<Rightarrow> log_state" where
  "setDisplay_default = setDisplay (Some ConsoleLog)"

section \<open>The macros\<close>

definition boost_log_sev :: "severity_level \<Rightarrow> string \<Rightarrow> log_state \<Rightarrow> log_state" where
  "boost_log_sev lv text s =
     (if (case log_filter s of None \<Rightarrow> True | Some m \<Rightarrow> m \<le> lv)
      then s\<lparr>log_records := log_records s @ [(lv, text)]\<rparr> else s)"

definition log_line :: "string \<Rightarrow> nat \<Rightarrow> string" where
  "log_line file line = ''['' @ file @ '':'' @ show_nat line @ '']''"

definition thread_id :: "string \<Rightarrow> string" where
  "thread_id tid = ''('' @ tid @ '') : ''"

definition LogTrace :: "string \<Rightarrow> bool \<Rightarrow> string \<Rightarrow> log_state \<Rightarrow> log_state" where
  "LogTrace tid shown msg s =
     (let s1 = boost_log_sev Trace (thread_id tid @ msg) s in if shown then display msg s1 else s1)"

definition LogDebug :: "string \<Rightarrow> bool \<Rightarrow> string \<Rightarrow> log_state \<Rightarrow> log_state" where
  "LogDebug tid shown msg s =
     (let s1 = boost_log_sev Debug (thread_id tid @ msg) s in if shown then display msg s1 else s1)"

definition LogInfo :: "string \<Rightarrow> bool \<Rightarrow> string \<Rightarrow> log_state \<Rightarrow> log_state" where
  "LogInfo tid shown msg s =
     (let s1 = boost_log_sev Info (thread_id tid @ msg) s in if shown then display msg s1 else s1)"

definition LogWarn :: "string \<Rightarrow> bool \<Rightarrow> string \<Rightarrow> log_state \<Rightarrow> log_state" where
  "LogWarn tid shown msg s =
     (let s1 = boost_log_sev Warning (thread_id tid @ msg) s in if shown then display msg s1 else s1)"

definition LogError :: "string \<Rightarrow> string \<Rightarrow> nat \<Rightarrow> bool \<Rightarrow> string \<Rightarrow> log_state \<Rightarrow> log_state" where
  "LogError tid file line shown msg s =
     (let s1 = boost_log_sev Error (thread_id tid @ log_line file line @ msg) s in
      if shown then display (log_line file line @ msg) s1 else s1)"

definition LogFatal :: "string \<Rightarrow> bool \<Rightarrow> string \<Rightarrow> log_state \<Rightarrow> log_state" where
  "LogFatal tid shown msg s =
     (let s1 = boost_log_sev Fatal (thread_id tid @ msg) s in if shown then display msg s1 else s1)"

section \<open>Sequences of log statements\<close>

record log_stmt =
  ls_level :: severity_level
  ls_thread :: string
  ls_file :: string
  ls_line :: nat
  ls_show :: bool
  ls_msg :: string

definition log_exec :: "log_stmt \<Rightarrow> log_state \<Rightarrow> log_state" where
  "log_exec m = (case ls_level m of
       Trace \<Rightarrow> LogTrace (ls_thread m) (ls_show m) (ls_msg m)
     | Debug \<Rightarrow> LogDebug (ls_thread m) (ls_show m) (ls_msg m)
     | Info \<Rightarrow> LogInfo (ls_thread m) (ls_show m) (ls_msg m)
     | Warning \<Rightarrow> LogWarn (ls_thread m) (ls_show m) (ls_msg m)
     | Error \<Rightarrow> LogError (ls_thread m) (ls_file m) (ls_line m) (ls_show m) (ls_msg m)
     | Fatal \<Rightarrow> LogFatal (ls_thread m) (ls_show m) (ls_msg m))"

definition ls_text :: "log_stmt \<Rightarrow> string" where
  "ls_text m = (if ls_level m = Error then log_line (ls_file m) (ls_line m) else []) @ ls_msg m"

lemma log_exec_eq:
  "log_exec m s = (let s1 = boost_log_sev (ls_level m) (thread_id (ls_thread m) @ ls_text m) s in
     if ls_show m then display (ls_text m) s1 else s1)"
  by (cases "ls_level m") (simp_all add: log_exec_def ls_text_def LogTrace_def LogDebug_def LogInfo_def LogWarn_def
      LogError_def LogFatal_def Let_def)

lemma display_fields [simp]:
  "log_filter (display t s) = log_filter s" "log_records (display t s) = log_records s"
  "gdisplayLog (display t s) = gdisplayLog s"
  by (simp_all add: display_def call_display_def consoleLog_def guiLog_def split: option.splits display_log.splits)

lemma boost_log_sev_fields [simp]:
  "log_filter (boost_log_sev lv t s) = log_filter s" "gdisplayLog (boost_log_sev lv t s) = gdisplayLog s"
  "console (boost_log_sev lv t s) = console s" "displayed (boost_log_sev lv t s) = displayed s"
  by (simp_all add: boost_log_sev_def)

lemma log_exec_settings [simp]:
  "log_filter (log_exec m s) = log_filter s" "gdisplayLog (log_exec m s) = gdisplayLog s"
  by (simp_all add: log_exec_eq Let_def)

lemma log_exec_records:
  "log_filter s = Some lv \<Longrightarrow> log_records (log_exec m s) = log_records s @
     (if lv \<le> ls_level m then [(ls_level m, thread_id (ls_thread m) @ ls_text m)] else [])"
  by (simp add: log_exec_eq Let_def boost_log_sev_def)

lemma log_exec_console:
  "console (log_exec m s) = console s @
     (if ls_show m \<and> gdisplayLog s = Some ConsoleLog then ''log:'' @ c_string (ls_text m) @ [CHR 0x0A] else [])"
  by (auto simp: log_exec_eq Let_def display_def call_display_def consoleLog_def guiLog_def
      split: option.splits display_log.splits)

lemma fold_log_exec:
  "log_filter s = Some lv \<Longrightarrow>
     log_records (fold log_exec ms s) = log_records s
       @ map (\<lambda>m. (ls_level m, thread_id (ls_thread m) @ ls_text m)) (filter (\<lambda>m. lv \<le> ls_level m) ms)
   \<and> console (fold log_exec ms s) = console s @ (if gdisplayLog s = Some ConsoleLog
       then concat (map (\<lambda>m. ''log:'' @ c_string (ls_text m) @ [CHR 0x0A]) (filter ls_show ms)) else [])"
  by (induction ms arbitrary: s) (simp_all add: log_exec_records log_exec_console)

section \<open>Properties\<close>

text \<open>
  C40: what is logged and what is shown. After \<open>init\<close>, the log gets the messages from severity debug on, in
  order, errors with the file and line of the statement. Independently of the severity filter, the
  statements that ask for it write a line to the console, and only if \<open>setDisplay\<close> installed
  \<open>consoleLog\<close>; the line ends at a null character of the message.
\<close>

theorem log_and_console:
  "log_records (fold log_exec ms (log_init name (setDisplay d s))) = log_records s
     @ map (\<lambda>m. (ls_level m, thread_id (ls_thread m) @ ls_text m)) (filter (\<lambda>m. ls_level m \<noteq> Trace) ms)
   \<and> console (fold log_exec ms (log_init name (setDisplay d s))) = console s @ (if d = Some ConsoleLog
       then concat (map (\<lambda>m. ''log:'' @ c_string (ls_text m) @ [CHR 0x0A]) (filter ls_show ms)) else [])"
proof -
  have "Debug \<le> l \<longleftrightarrow> l \<noteq> Trace" for l by (cases l) (simp_all add: less_eq_severity_level_def)
  then show ?thesis
    using fold_log_exec [of "log_init name (setDisplay d s)" Debug ms] by (simp add: log_init_def setDisplay_def)
qed

end
