(* ===== verification/Spec2Isabelle.thy ===== *)
theory Spec2Isabelle
  imports StringPiece EventLoopRun WeakCallback Logger
begin

text \<open>
  libNetToy: a C++ network library in the style of muduo, on top of Boost.Asio. This development models
  its classes, the ones in \<open>src/src/base\<close> and \<open>src/src/net\<close>, and proves what they do and where they fail.

  \<^bold>\<open>The program.\<close> An \<open>EventLoop\<close> is an \<open>io_service\<close> bound to the thread that built it; calls from other threads
  are posted to it. A \<open>TimerQueue\<close> belongs to each loop. \<open>EventLoopThread\<close> runs a loop in a thread of
  its own and \<open>EventLoopThreadPool\<close> hands such loops out in turn. A \<open>TcpConnection\<close> reads into and writes
  from two \<open>Buffer\<close>s through asynchronous operations. \<open>TcpServer\<close> gets sockets from an \<open>Acceptor\<close>,
  spreads them over the pool and keeps its connections in a map; \<open>TcpClient\<close> gets one socket at a time from a
  \<open>Connector\<close>, which retries with a growing delay.

  \<^bold>\<open>Theories and sources.\<close>

  \<^item> \<open>Net_Prelude\<close>: errors and results (\<open>bindR\<close>, \<open>assertR\<close>: an assertion that fails ends the program with
    \<open>AssertionFailed\<close>), 64-bit \<open>size_t\<close>, \<open>int\<close> arithmetic with overflow as an error, printing of
    numbers, \<open>snprintf\<close>, reachable states and the locale \<open>inductive_invariant\<close>.
  \<^item> \<open>Buffer\<close>: \<open>base/Buffer.h\<close>, \<open>Buffer.cpp\<close>. The vector and its two indices, every operation. It refines
    a plain byte string, for any sequence of operations; it is a byte queue (locale \<open>byte_fifo\<close>, interpreted
    on \<open>append_chars\<close> and \<open>retrieveAsString\<close>); integers are in network order; line search; the wrap-around of
    \<open>makeSpace\<close>.
  \<^item> \<open>StringPiece\<close>: \<open>base/StringPiece.h\<close> over an explicit memory of byte blocks.
  \<^item> \<open>Callbacks\<close>: the function objects that the sources bind, as the datatype \<open>closure\<close>; \<open>net/Callbacks.h\<close>.
  \<^item> \<open>TimerQueue\<close>: \<open>base/TimerQueue.h\<close>, \<open>TimerQueue.cpp\<close>; queue, environment and callbacks as the step
    relation \<open>tq_step\<close>, and \<open>cancel\<close> from another thread statement by statement.
  \<^item> \<open>EventLoop\<close>: \<open>base/EventLoop.h\<close>, \<open>EventLoop.cpp\<close>; the world of all loops (\<open>loop_world\<close>).
  \<^item> \<open>EventLoopRun\<close>: what becomes of the function objects that a loop is given: traces of the given and of
    the executed ones, over posts from any threads and from the objects themselves.
  \<^item> \<open>EventLoopThread\<close>: \<open>base/EventLoopThread.h\<close>, \<open>EventLoopThread.cpp\<close>; the interleavings of
    \<open>startLoop\<close>, the destructor and \<open>threadFunc\<close> with mutex, condition variable and spurious
    wake-ups: what is returned, and that both sides come to their end.
  \<^item> \<open>EventLoopThreadPool\<close>: \<open>base/EventLoopThreadPool.h\<close>, \<open>EventLoopThreadPool.cpp\<close>.
  \<^item> \<open>TcpConnection\<close>: \<open>net/TcpConnection.h\<close>, \<open>TcpConnection.cpp\<close>; the world is extended by the connection
    objects with their reference counts and by the operations that are outstanding. The locale
    \<open>conn_callbacks\<close> is the contract of the callbacks; under it the lifecycle of connections is an
    invariant of \<open>conn_step\<close>.
  \<^item> \<open>ConnectionIO\<close>: what reading and sending do to the bytes.
  \<^item> \<open>Acceptor\<close> and \<open>TcpServer\<close>: \<open>net/Acceptor.h\<close>, \<open>Acceptor.cpp\<close>, \<open>net/TcpServer.h\<close>, \<open>TcpServer.cpp\<close>. The
    server supplies the close callback (\<open>server_env\<close>), and the locale \<open>server_user\<close> shows that it keeps
    the contract whenever the user's callbacks do.
  \<^item> \<open>Connector\<close> and \<open>TcpClient\<close>: \<open>net/Connector.h\<close>, \<open>Connector.cpp\<close>, \<open>net/TcpClient.h\<close>, \<open>TcpClient.cpp\<close>,
    in the same way (\<open>client_env\<close>, \<open>client_user\<close>).
  \<^item> \<open>ClientRetry\<close>: the behaviour of client and connector over time: retries, stopping, reconnecting,
    names, destruction.
  \<^item> \<open>Keeps\<close>: a calculus for invariants of programs in the result monad, one rule per construct.
  \<^item> \<open>WellFormed\<close> and \<open>WellFormedNet\<close>: the class invariant of every buffer of every connection, the windows of
    outstanding operations and the function objects of timers, kept by the operations of the connection
    (locales \<open>wf_connection\<close>, \<open>wf_env\<close>) and by those of server and client (\<open>wf_server\<close>, \<open>wf_client\<close>).
  \<^item> \<open>Ownership\<close>: who owns a connection. The invariant \<open>own_inv\<close> equates the reference count with the number
    of owners (queued function objects, members of server or client, pointers of running code and of the
    user); the operations take and give up pointers. The locale \<open>owner_view\<close> says which members own,
    \<open>own_callbacks\<close> is the contract of the callbacks.
  \<^item> \<open>ServerOwnership\<close> and \<open>ClientOwnership\<close>: the interpretations on server and client, and the balance in
    all their reachable states, destructors included. The user drops only pointers that he has.
  \<^item> \<open>WeakCallback\<close>: \<open>base/WeakCallback.h\<close>, for any class with shared ownership (locale \<open>weak_object\<close>,
    interpreted on the connections of server and client and on timers).
  \<^item> \<open>Logger\<close>: \<open>base/Logger.h\<close>, \<open>Logger.cpp\<close>; severity filter, display function and macros.

  \<^bold>\<open>Conventions.\<close> A class is a record with the members of the source (a short prefix keeps the field names
  apart), an operation a function from the world to a result; \<open>Inl\<close> is an assertion that fails, an
  exception, a use of a destroyed object, or memory accessed out of bounds. Assertions are part of the
  program: the build does not define \<open>NDEBUG\<close>. The worlds are extensible records, each
  layer extending the one below, so that an operation of a lower layer works on every world above.
  A \<open>shared_ptr\<close> is a reference count, a bound plain \<open>this\<close> owns nothing. Handlers and function objects run
  one at a time as steps of the environment, which chooses the order, the error codes and the bytes; only
  \<open>EventLoopThread\<close> and the race of \<open>cancel\<close> are split further. Each scope guarded by a mutex
  elsewhere is one step.

  \<^bold>\<open>Arguments of the model.\<close> Boost.Asio: results of socket calls (\<open>conn_env\<close>), completion of operations,
  and opening the acceptor, which gets the address and the reuse option; the user's callbacks, the thread
  initialisation of the pool included; identities of new threads and loops (\<open>spawn\<close>). Lengths of
  byte lists given to a buffer are at most \<open>max_size\<close>, the largest size a vector of \<open>char\<close> can have. The
  model has no fuel: every definition terminates, and loops that never end in the source are steps of
  a relation.

  \<^bold>\<open>Properties.\<close> Besides functional correctness of the components, the theorems state the failures that the
  model revealed in the code as it is: overlapping sends, reads into the same memory,
  handlers that run on destroyed connections, destructors of server and client, aborts when a client is
  connected again, one failed accept ending the accepting, connection names that are cut off, and races of
  timers. Each of them is a theorem or lemma, most with a concrete run as its witness.

  \<^bold>\<open>Not modelled.\<close> Log statements have no effect on the state of the classes and are left out of their
  operations; the sinks, formats and file rotation of Boost.Log are left out of \<open>Logger\<close>.
  \<open>Buffer::internalCapacity\<close>, getters that only return a member, and operations that are declared and never
  defined are left out, and so are the free functions \<open>removeConnection\<close> and \<open>removeConnector\<close> of
  \<open>TcpClient.cpp\<close>, which nothing calls. The files under \<open>src/build\<close> are generated by CMake to identify the compiler. The
  operating system's sockets, memory exhaustion other than \<open>length_error\<close>, and data races on members that
  the sources access without a lock are outside the model.
\<close>

end
